theory Spec2Isabelle
  imports Complex_Main
begin

section \<open>The interactable canvas: data model\<close>

text \<open>
  The component \<open>InteractableCanvas\<close> keeps an affine transform on a 2D canvas context,
  maps pointer coordinates into the canvas's logical space, clamps the transform after every
  zoom and pan, and redraws a grid and a list of host-supplied drawables.

  JavaScript numbers are modelled as \<open>real\<close>, without NaN or infinities. The coordinate
  mapping, the transform and its bounds are taken in exact arithmetic; the size of the
  backing store and the grid, where a loop runs until a rounded sum reaches a bound, use
  the rounded operations of the section on rounded arithmetic. A point \<open>{x, y}\<close> is a
  pair.
\<close>

type_synonym point = "real \<times> real"

text \<open>
  The matrix returned by \<open>ctx.getTransform()\<close>: \<open>a\<close> and \<open>d\<close> are the horizontal and
  vertical scaling, \<open>b\<close> and \<open>c\<close> the skewing, \<open>e\<close> and \<open>f\<close> the translation.
\<close>

record dom_matrix =
  ta :: real
  tb :: real
  tc :: real
  td :: real
  te :: real
  tf :: real

text \<open>The rectangle returned by \<open>canvas.getBoundingClientRect()\<close>.\<close>

record rect =
  width :: real
  height :: real

text \<open>
  A drawable is an object of the host. What the component inspects is whether \<open>draw\<close>,
  \<open>touches\<close> and \<open>move\<close> are functions; it calls \<open>touches(x, y)\<close> for its truth value and
  calls \<open>draw(ctx)\<close> and \<open>move(pt)\<close> for their effect, which is recorded as an operation.
\<close>

record drawable =
  label :: string
  has_draw :: bool
  touches :: "(real \<Rightarrow> real \<Rightarrow> bool) option"
  has_move :: bool

text \<open>The \<open>gridOptions\<close> property; an absent key is \<open>None\<close>.\<close>

record grid_options =
  go_draw :: bool
  go_cellSize :: "real option"
  go_lineWidth :: "real option"
  go_lineColor :: "string option"

text \<open>
  The properties of the component and the platform values it reads:
  \<open>window.devicePixelRatio\<close> and the bounding rectangle of the canvas element.
  A \<open>drawables\<close> property that is not an array is \<open>None\<close>, as is an absent \<open>maxZoom\<close> or
  \<open>gridOptions\<close>; \<open>has_onContextMenu\<close> says whether \<open>onContextMenu\<close> is a function.
\<close>

record config =
  devicePixelRatio :: real
  canvas_rect :: rect
  drawables :: "drawable list option"
  maxZoom :: "real option"
  gridOptions :: "grid_options option"
  has_onContextMenu :: bool

text \<open>
  The mutable state: the transform of the 2D context, the size of the backing store, the
  two fields \<open>canvas.draggingObject\<close> and \<open>canvas.dragStart\<close> that the handlers hang on the
  canvas element, and \<open>document.body.style.cursor\<close>.
\<close>

record state =
  transform :: dom_matrix
  canvas_width :: int
  canvas_height :: int
  draggingObject :: "drawable option"
  dragStart :: "point option"
  cursor :: string

record mouse_event =
  offsetX :: real
  offsetY :: real
  deltaY :: real
  button :: int
  clientX :: real
  clientY :: real

section \<open>The canvas context\<close>

text \<open>
  \<open>ctx.translate\<close> and \<open>ctx.scale\<close> of the platform multiply the current matrix on the right
  by a translation or a scaling matrix.
\<close>

definition identity_matrix :: dom_matrix where
  "identity_matrix = \<lparr>ta = 1, tb = 0, tc = 0, td = 1, te = 0, tf = 0\<rparr>"

definition ctx_translate :: "dom_matrix \<Rightarrow> real \<Rightarrow> real \<Rightarrow> dom_matrix" where
  "ctx_translate t x y =
     t\<lparr>te := ta t * x + tc t * y + te t, tf := tb t * x + td t * y + tf t\<rparr>"

definition ctx_scale :: "dom_matrix \<Rightarrow> real \<Rightarrow> real \<Rightarrow> dom_matrix" where
  "ctx_scale t x y =
     t\<lparr>ta := ta t * x, tb := tb t * x, tc := tc t * y, td := td t * y\<rparr>"

section \<open>Coordinate mapping and bounds\<close>

text \<open>
  The module constant \<open>DEFAULT_SCALING = Math.max(2, window.devicePixelRatio)\<close>, as a
  function of the pixel ratio, and its value for a configuration.
\<close>

definition DEFAULT_SCALING :: "real \<Rightarrow> real" where
  "DEFAULT_SCALING dpr = max 2 dpr"

definition canvas_scaling :: "config \<Rightarrow> real" where
  "canvas_scaling cfg = DEFAULT_SCALING (devicePixelRatio cfg)"

text \<open>
  \<open>getTransformedPoint(ctx, x, y)\<close>, statement by statement. The density factor is a
  parameter; the component passes \<open>DEFAULT_SCALING\<close>. For \<open>transform.a = 0\<close> the source
  computes with an infinite \<open>inverseZoom\<close>, which is outside this model (HOL gives
  \<open>1 / 0 = 0\<close>): statements about this function at such a matrix say nothing about the code.
\<close>

definition getTransformedPoint :: "real \<Rightarrow> dom_matrix \<Rightarrow> real \<Rightarrow> real \<Rightarrow> point" where
  "getTransformedPoint scaling t x y =
     (let inverseZoom = 1 / ta t;
          transformedX = inverseZoom * x;
          transformedX = transformedX * scaling;
          transformedX = transformedX - inverseZoom * te t;
          transformedY = inverseZoom * y;
          transformedY = transformedY * scaling;
          transformedY = transformedY - inverseZoom * tf t
      in (transformedX, transformedY))"

text \<open>\<open>enforceBounds(canvas, ctx)\<close>: reads the matrix, clamps it, writes it back whole.\<close>

definition enforceBounds :: "real \<Rightarrow> rect \<Rightarrow> dom_matrix \<Rightarrow> dom_matrix" where
  "enforceBounds scaling r t0 =
     (let t = (if ta t0 < 1 then t0\<lparr>ta := 1\<rparr> else t0);
          t = (if td t < 1 then t\<lparr>td := 1\<rparr> else t);
          scaledWidth = width r * ta t;
          scaledHeight = height r * td t;
          maxHorizontalTranslation = - (scaledWidth - width r) * scaling;
          maxVerticalTranslation = - (scaledHeight - height r) * scaling;
          t = (if te t > 0 then t\<lparr>te := 0\<rparr> else t);
          t = (if te t < maxHorizontalTranslation then t\<lparr>te := maxHorizontalTranslation\<rparr> else t);
          t = (if tf t > 0 then t\<lparr>tf := 0\<rparr> else t);
          t = (if tf t < maxVerticalTranslation then t\<lparr>tf := maxVerticalTranslation\<rparr> else t)
      in t)"

text \<open>
  What \<open>enforceBounds\<close> does to one translation: the two statements
  \<open>if (v > 0) v = 0\<close> and \<open>if (v < lo) v = lo\<close>, in this order.
\<close>

definition clamp_translation :: "real \<Rightarrow> real \<Rightarrow> real" where
  "clamp_translation lo v = (let v = (if v > 0 then 0 else v) in if v < lo then lo else v)"

section \<open>Rounded arithmetic\<close>

text \<open>
  Where the code's control flow or the numbers it draws depend on rounding (the size of
  the backing store and the grid loops), a product or a sum is the binary64 operation:
  the exact result rounded to the nearest binary64 number, ties to the even significand.
  \<open>binary_exponent\<close> is the exponent of the binade of a number, at least \<open>-1022\<close> (below
  \<open>2 powi (-1022)\<close> the numbers are subnormal and equally spaced), and \<open>ulp\<close> the
  distance between neighbouring binary64 numbers there: a significand has 53 bits.
  Overflow is not modelled: a result of magnitude \<open>2 ^ 1024\<close> or more is kept as it is,
  where the source has \<open>Infinity\<close>.
\<close>

definition binary_exponent :: "real \<Rightarrow> int" where
  "binary_exponent x = max (- 1022) \<lfloor>log 2 \<bar>x\<bar>\<rfloor>"

definition ulp :: "real \<Rightarrow> real" where
  "ulp x = 2 powi (binary_exponent x - 52)"

definition round_half_even :: "real \<Rightarrow> int" where
  "round_half_even z =
     (let f = \<lfloor>z\<rfloor>
      in if z - of_int f < 1/2 then f
         else if 1/2 < z - of_int f then f + 1
         else if even f then f else f + 1)"

definition round_double :: "real \<Rightarrow> real" where
  "round_double x = (if x = 0 then 0 else of_int (round_half_even (x / ulp x)) * ulp x)"

text \<open>A real is a JavaScript number when rounding leaves it as it is.\<close>

definition is_double :: "real \<Rightarrow> bool" where
  "is_double x \<longleftrightarrow> round_double x = x"

definition fadd :: "real \<Rightarrow> real \<Rightarrow> real" where
  "fadd x y = round_double (x + y)"

definition fmul :: "real \<Rightarrow> real \<Rightarrow> real" where
  "fmul x y = round_double (x * y)"

section \<open>Rendering\<close>

text \<open>
  What a render pass does to the drawing surface, in order. \<open>Line\<close> is one call of
  \<open>drawLine\<close> (a path from one point to the other, stroked with a width and a colour),
  \<open>DrawCall d\<close> the call \<open>d.draw(ctx)\<close>.
\<close>

datatype canvas_op =
    ClearRect real real real real
  | Line point point real string
  | DrawCall drawable

datatype error = NoDrawFunction | TypeError

definition drawLine :: "point \<Rightarrow> point \<Rightarrow> real \<Rightarrow> string \<Rightarrow> canvas_op" where
  "drawLine from to w color = Line from to w color"

text \<open>
  The loop \<open>for (let x = 0; x < bound; x += step) body(x)\<close>, started at any \<open>x\<close>, with the
  operations drawn so far; \<open>x += step\<close> is the rounded sum. It need not terminate:
  \<open>None\<close> is a loop that never returns.
\<close>

partial_function (option) for_loop ::
  "(real \<Rightarrow> canvas_op) \<Rightarrow> real \<Rightarrow> real \<Rightarrow> real \<Rightarrow> canvas_op list \<Rightarrow> canvas_op list option"
where
  "for_loop body bound step x acc =
     (if x < bound then for_loop body bound step (fadd x step) (acc @ [body x]) else Some acc)"

text \<open>
  \<open>drawGrid(ctx)\<close>: the defaults \<open>lineWidth: 1\<close>, \<open>lineColor: '#e6e6e6'\<close>, \<open>cellSize: 40\<close>
  are overridden by the keys of \<open>gridOptions\<close>; \<open>scaledWidth\<close> and \<open>scaledHeight\<close> are the
  rounded products of the rectangle's sides and \<open>DEFAULT_SCALING\<close>; the vertical lines
  are drawn first.
\<close>

definition grid_lineWidth :: "config \<Rightarrow> real" where
  "grid_lineWidth cfg =
     (case gridOptions cfg of None \<Rightarrow> 1
      | Some g \<Rightarrow> (case go_lineWidth g of None \<Rightarrow> 1 | Some w \<Rightarrow> w))"

definition grid_lineColor :: "config \<Rightarrow> string" where
  "grid_lineColor cfg =
     (case gridOptions cfg of None \<Rightarrow> ''#e6e6e6''
      | Some g \<Rightarrow> (case go_lineColor g of None \<Rightarrow> ''#e6e6e6'' | Some c \<Rightarrow> c))"

definition grid_cellSize :: "config \<Rightarrow> real" where
  "grid_cellSize cfg =
     (case gridOptions cfg of None \<Rightarrow> 40
      | Some g \<Rightarrow> (case go_cellSize g of None \<Rightarrow> 40 | Some c \<Rightarrow> c))"

definition scaledWidth :: "config \<Rightarrow> real" where
  "scaledWidth cfg = fmul (width (canvas_rect cfg)) (canvas_scaling cfg)"

definition scaledHeight :: "config \<Rightarrow> real" where
  "scaledHeight cfg = fmul (height (canvas_rect cfg)) (canvas_scaling cfg)"

definition vertical_line :: "config \<Rightarrow> real \<Rightarrow> canvas_op" where
  "vertical_line cfg x =
     drawLine (x, 0) (x, scaledHeight cfg) (grid_lineWidth cfg) (grid_lineColor cfg)"

definition horizontal_line :: "config \<Rightarrow> real \<Rightarrow> canvas_op" where
  "horizontal_line cfg y =
     drawLine (0, y) (scaledWidth cfg, y) (grid_lineWidth cfg) (grid_lineColor cfg)"

definition drawGrid :: "config \<Rightarrow> canvas_op list option" where
  "drawGrid cfg =
     (case for_loop (vertical_line cfg) (scaledWidth cfg) (grid_cellSize cfg) 0 [] of
        None \<Rightarrow> None
      | Some ops \<Rightarrow> for_loop (horizontal_line cfg) (scaledHeight cfg) (grid_cellSize cfg) 0 ops)"

text \<open>
  The loop \<open>for (const obj of drawables)\<close> of \<open>draw\<close>: the operations performed, and the
  error thrown, if any. The loop stops at the first object whose \<open>draw\<close> is not a function.
\<close>

fun draw_objects :: "drawable list \<Rightarrow> canvas_op list \<times> error option" where
  "draw_objects [] = ([], None)"
| "draw_objects (obj # objs) =
     (if has_draw obj
      then (let (ops, err) = draw_objects objs in (DrawCall obj # ops, err))
      else ([], Some NoDrawFunction))"

text \<open>
  \<open>draw(ctx)\<close>: \<open>None\<close> when the call never returns; otherwise the operations performed on
  the surface and the error that propagates out of the call, if one is thrown. The statement
  \<open>if (gridOptions && gridOptions.draw) { drawGrid(ctx) }\<close> is \<open>grid_phase\<close>, its condition
  \<open>grid_enabled\<close>.
\<close>

definition grid_enabled :: "config \<Rightarrow> bool" where
  "grid_enabled cfg = (case gridOptions cfg of None \<Rightarrow> False | Some g \<Rightarrow> go_draw g)"

definition grid_phase :: "config \<Rightarrow> canvas_op list option" where
  "grid_phase cfg = (if grid_enabled cfg then drawGrid cfg else Some [])"

definition draw :: "config \<Rightarrow> state \<Rightarrow> (canvas_op list \<times> error option) option" where
  "draw cfg st =
     (let clear = [ClearRect 0 0 (real_of_int (canvas_width st) + 50)
                                  (real_of_int (canvas_height st) + 50)]
      in case grid_phase cfg of
           None \<Rightarrow> None
         | Some grid \<Rightarrow>
             (case drawables cfg of
                None \<Rightarrow> Some (clear @ grid, None)
              | Some objs \<Rightarrow>
                  (let (ops, err) = draw_objects objs in Some (clear @ grid @ ops, err))))"

section \<open>Event handlers\<close>

text \<open>
  What a handler does besides changing the state, in order. \<open>CallDraw\<close> is the call
  \<open>draw(ctx)\<close>, whose behaviour is \<open>draw\<close> above at the state the handler returns (no handler
  touches the state after it); \<open>CallMove d pt\<close> is \<open>d.move(pt)\<close>; \<open>Throw\<close> is an
  exception raised by the handler itself.
\<close>

datatype action =
    CallDraw
  | CallMove drawable point
  | ConsoleLog real real point dom_matrix
  | PreventDefault
  | CallOnContextMenu point "drawable option" real real
  | Throw error

definition maxScaleValue :: "config \<Rightarrow> real" where
  "maxScaleValue cfg = (case maxZoom cfg of None \<Rightarrow> 5 | Some m \<Rightarrow> if m = 0 then 5 else m)"

definition touches_at :: "point \<Rightarrow> drawable \<Rightarrow> bool" where
  "touches_at pt d = (case touches d of None \<Rightarrow> False | Some t \<Rightarrow> t (fst pt) (snd pt))"

definition getObjectAt :: "config \<Rightarrow> point \<Rightarrow> drawable option" where
  "getObjectAt cfg pt =
     (case drawables cfg of None \<Rightarrow> None | Some ds \<Rightarrow> find (touches_at pt) ds)"

text \<open>
  \<open>scaleCanvas(canvas, ctx)\<close>: assigning \<open>canvas.width\<close> resets the matrix of the context,
  which is then scaled by the density factor.
\<close>

definition scaleCanvas :: "config \<Rightarrow> state \<Rightarrow> state" where
  "scaleCanvas cfg st =
     st\<lparr>canvas_width := \<lfloor>fmul (width (canvas_rect cfg)) (canvas_scaling cfg)\<rfloor>,
        canvas_height := \<lfloor>fmul (height (canvas_rect cfg)) (canvas_scaling cfg)\<rfloor>,
        transform := ctx_scale identity_matrix (canvas_scaling cfg) (canvas_scaling cfg)\<rparr>"

text \<open>A fresh canvas element: 300 by 150, identity matrix, no interaction fields.\<close>

definition fresh_canvas :: state where
  "fresh_canvas = \<lparr>transform = identity_matrix, canvas_width = 300, canvas_height = 150,
     draggingObject = None, dragStart = None, cursor = ''auto''\<rparr>"

text \<open>The mount effect, after the listeners are registered.\<close>

definition mount :: "config \<Rightarrow> state \<times> action list" where
  "mount cfg =
     (let st = scaleCanvas cfg fresh_canvas;
          st = st\<lparr>transform := enforceBounds (canvas_scaling cfg) (canvas_rect cfg) (transform st)\<rparr>
      in (st, [CallDraw]))"

definition click :: "config \<Rightarrow> state \<Rightarrow> mouse_event \<Rightarrow> state \<times> action list" where
  "click cfg st ev = (st, [CallDraw])"

definition mousewheel :: "config \<Rightarrow> state \<Rightarrow> mouse_event \<Rightarrow> state \<times> action list" where
  "mousewheel cfg st ev =
     (if deltaY ev < 0 \<and> ta (transform st) > maxScaleValue cfg then (st, [])
      else
        (let zoom = (if deltaY ev < 0 then 1.02 else 0.98);
             pt = getTransformedPoint (canvas_scaling cfg) (transform st) (offsetX ev) (offsetY ev);
             t = ctx_translate (transform st) (fst pt) (snd pt);
             t = ctx_scale t zoom zoom;
             t = ctx_translate t (- fst pt) (- snd pt);
             t = enforceBounds (canvas_scaling cfg) (canvas_rect cfg) t
         in (st\<lparr>transform := t\<rparr>, [CallDraw])))"

definition mousedown :: "config \<Rightarrow> state \<Rightarrow> mouse_event \<Rightarrow> state \<times> action list" where
  "mousedown cfg st ev =
     (if button ev \<noteq> 0 then (st, [])
      else
        (let pt = getTransformedPoint (canvas_scaling cfg) (transform st) (offsetX ev) (offsetY ev);
             logged = [ConsoleLog (offsetX ev) (offsetX ev) pt (transform st)]
         in case getObjectAt cfg pt of
              None \<Rightarrow> (st\<lparr>dragStart := Some pt, cursor := ''grabbing''\<rparr>, logged)
            | Some obj \<Rightarrow>
                if has_move obj
                then (st\<lparr>draggingObject := Some obj, cursor := ''grabbing''\<rparr>, logged)
                else (st\<lparr>dragStart := Some pt, cursor := ''grabbing''\<rparr>, logged)))"

definition mousemove :: "config \<Rightarrow> state \<Rightarrow> mouse_event \<Rightarrow> state \<times> action list" where
  "mousemove cfg st ev =
     (let pt = getTransformedPoint (canvas_scaling cfg) (transform st) (offsetX ev) (offsetY ev)
      in case draggingObject st of
           Some obj \<Rightarrow>
             if has_move obj then (st, [CallMove obj pt, CallDraw]) else (st, [Throw TypeError])
         | None \<Rightarrow>
             (case dragStart st of
                Some start \<Rightarrow>
                  (let t = ctx_translate (transform st) (fst pt - fst start) (snd pt - snd start);
                       t = enforceBounds (canvas_scaling cfg) (canvas_rect cfg) t
                   in (st\<lparr>transform := t\<rparr>, [CallDraw]))
              | None \<Rightarrow> (st, [])))"

definition mouseup :: "config \<Rightarrow> state \<Rightarrow> mouse_event \<Rightarrow> state \<times> action list" where
  "mouseup cfg st ev =
     (case draggingObject st of
        Some obj \<Rightarrow> (st\<lparr>draggingObject := None, cursor := ''auto''\<rparr>, [])
      | None \<Rightarrow>
          (case dragStart st of
             Some start \<Rightarrow> (st\<lparr>dragStart := None, cursor := ''auto''\<rparr>, [])
           | None \<Rightarrow> (st, [])))"

definition contextmenu :: "config \<Rightarrow> state \<Rightarrow> mouse_event \<Rightarrow> state \<times> action list" where
  "contextmenu cfg st ev =
     (let pt = getTransformedPoint (canvas_scaling cfg) (transform st) (offsetX ev) (offsetY ev)
      in (st, [PreventDefault,
               if has_onContextMenu cfg
               then CallOnContextMenu pt (getObjectAt cfg pt) (clientX ev) (clientY ev)
               else Throw TypeError]))"

text \<open>
  The state of the gesture as the handlers read it: \<open>mousemove\<close> and \<open>mouseup\<close> look at
  \<open>draggingObject\<close> first and at \<open>dragStart\<close> only when no object is being dragged.
\<close>

datatype interaction = Idle | Panning | DraggingObject

definition interaction_of :: "state \<Rightarrow> interaction" where
  "interaction_of st =
     (case draggingObject st of
        Some obj \<Rightarrow> DraggingObject
      | None \<Rightarrow> (case dragStart st of Some start \<Rightarrow> Panning | None \<Rightarrow> Idle))"

text \<open>A run of pointer-move events, each handled to completion before the next.\<close>

fun mousemoves :: "config \<Rightarrow> state \<Rightarrow> mouse_event list \<Rightarrow> state \<times> action list" where
  "mousemoves cfg st [] = (st, [])"
| "mousemoves cfg st (ev # evs) =
     (let (st1, acts1) = mousemove cfg st ev;
          (st2, acts2) = mousemoves cfg st1 evs
      in (st2, acts1 @ acts2))"

text \<open>
  The states of a mounted component: the state after the mount effect, and the state after
  any handler has run in such a state.
\<close>

inductive reachable :: "config \<Rightarrow> state \<Rightarrow> bool" for cfg :: config where
  mounted: "reachable cfg (fst (mount cfg))"
| clicked: "reachable cfg st \<Longrightarrow> reachable cfg (fst (click cfg st ev))"
| wheeled: "reachable cfg st \<Longrightarrow> reachable cfg (fst (mousewheel cfg st ev))"
| pressed: "reachable cfg st \<Longrightarrow> reachable cfg (fst (mousedown cfg st ev))"
| moved: "reachable cfg st \<Longrightarrow> reachable cfg (fst (mousemove cfg st ev))"
| released: "reachable cfg st \<Longrightarrow> reachable cfg (fst (mouseup cfg st ev))"
| menu: "reachable cfg st \<Longrightarrow> reachable cfg (fst (contextmenu cfg st ev))"

section \<open>Notions used in the statements\<close>

text \<open>
  The grid of a backing store of 1400 by 1400 with cells of 40 in the default style: 35
  vertical segments from \<open>y = 0\<close> to \<open>y = 1400\<close> at \<open>x = 0, 40, ..., 1360\<close>, then 35
  horizontal segments from \<open>x = 0\<close> to \<open>x = 1400\<close> at \<open>y = 0, 40, ..., 1360\<close>.
\<close>

definition grid_40 :: "canvas_op list" where
  "grid_40 =
     map (\<lambda>k. Line (40 * real k, 0) (40 * real k, 1400) 1 ''#e6e6e6'') [0..<35]
     @ map (\<lambda>k. Line (0, 40 * real k) (1400, 40 * real k) 1 ''#e6e6e6'') [0..<35]"

text \<open>A line segment is vertical when its end points have the same \<open>x\<close>, horizontal when
  they have the same \<open>y\<close>.\<close>

fun is_vertical :: "canvas_op \<Rightarrow> bool" where
  "is_vertical (Line p q w c) = (fst p = fst q)"
| "is_vertical (ClearRect x y w h) = False"
| "is_vertical (DrawCall d) = False"

fun is_horizontal :: "canvas_op \<Rightarrow> bool" where
  "is_horizontal (Line p q w c) = (snd p = snd q)"
| "is_horizontal (ClearRect x y w h) = False"
| "is_horizontal (DrawCall d) = False"

text \<open>The numbers of vertical and of horizontal segments of a render pass that returns.\<close>

definition line_counts ::
  "(canvas_op list \<times> error option) option \<Rightarrow> (nat \<times> nat) option" where
  "line_counts res =
     (case res of
        None \<Rightarrow> None
      | Some (ops, err) \<Rightarrow>
          Some (length (filter is_vertical ops), length (filter is_horizontal ops)))"

text \<open>
  The matrices of the viewport: the same scale on both axes, at least 1, and no skew.
\<close>

definition viewport_matrix :: "dom_matrix \<Rightarrow> bool" where
  "viewport_matrix t \<longleftrightarrow> ta t = td t \<and> tb t = 0 \<and> tc t = 0 \<and> 1 \<le> ta t"

text \<open>
  What a run of pointer-move events does while \<open>obj\<close> is dragged under the matrix \<open>t\<close>:
  for each event, \<open>obj.move\<close> with the logical point of the event, then a redraw.
\<close>

definition drag_actions :: "config \<Rightarrow> dom_matrix \<Rightarrow> drawable \<Rightarrow> mouse_event list \<Rightarrow> action list" where
  "drag_actions cfg t obj evs =
     concat (map (\<lambda>ev. [CallMove obj (getTransformedPoint (canvas_scaling cfg) t
                                         (offsetX ev) (offsetY ev)), CallDraw]) evs)"

subsection \<open>Example inputs\<close>

text \<open>
  A canvas of 700 by 700 CSS pixels on a display of pixel ratio 2 with the grid drawn,
  for a list of drawables, a \<open>maxZoom\<close> and a cell size; a square drawable that touches the
  points of \<open>[0, side] \<times> [0, side]\<close>; a drawable without a \<open>draw\<close> function; pointer and wheel
  events at a device point.
\<close>

definition box :: "string \<Rightarrow> bool \<Rightarrow> real \<Rightarrow> drawable" where
  "box name movable side =
     \<lparr>label = name, has_draw = True,
      touches = Some (\<lambda>x y. 0 \<le> x \<and> x \<le> side \<and> 0 \<le> y \<and> y \<le> side),
      has_move = movable\<rparr>"

definition no_draw :: drawable where
  "no_draw = \<lparr>label = ''broken'', has_draw = False, touches = None, has_move = False\<rparr>"

definition demo_grid :: "real \<Rightarrow> grid_options" where
  "demo_grid cell =
     \<lparr>go_draw = True, go_cellSize = Some cell, go_lineWidth = None, go_lineColor = None\<rparr>"

definition demo :: "drawable list \<Rightarrow> real option \<Rightarrow> real \<Rightarrow> config" where
  "demo ds zoom cell =
     \<lparr>devicePixelRatio = 2, canvas_rect = \<lparr>width = 700, height = 700\<rparr>,
      drawables = Some ds, maxZoom = zoom, gridOptions = Some (demo_grid cell),
      has_onContextMenu = True\<rparr>"

definition pointer :: "real \<Rightarrow> real \<Rightarrow> mouse_event" where
  "pointer x y = \<lparr>offsetX = x, offsetY = y, deltaY = 0, button = 0, clientX = x, clientY = y\<rparr>"

definition wheel :: "real \<Rightarrow> real \<Rightarrow> real \<Rightarrow> mouse_event" where
  "wheel x y delta =
     \<lparr>offsetX = x, offsetY = y, deltaY = delta, button = 0, clientX = x, clientY = y\<rparr>"

text \<open>The state after mounting and \<open>n\<close> wheel events that zoom out at \<open>(350, 350)\<close>.\<close>

definition zoom_outs :: "config \<Rightarrow> nat \<Rightarrow> state" where
  "zoom_outs cfg n = ((\<lambda>st. fst (mousewheel cfg st (wheel 350 350 1))) ^^ n) (fst (mount cfg))"

section \<open>Properties of the mapping and of the bounds\<close>

lemma DEFAULT_SCALING_ge_2: "2 \<le> DEFAULT_SCALING dpr"
  by (simp add: DEFAULT_SCALING_def)

lemma canvas_scaling_ge_2: "2 \<le> canvas_scaling cfg"
  by (simp add: canvas_scaling_def DEFAULT_SCALING_ge_2)

text \<open>
  Claim C2. Under the identity transform a device point \<open>(x, y)\<close> is mapped to
  \<open>(x * DEFAULT_SCALING, y * DEFAULT_SCALING)\<close>; with density factor 2 (a device pixel
  ratio of 2) the point \<open>(350, 350)\<close> is mapped to \<open>(700, 700)\<close>.
\<close>

theorem getTransformedPoint_identity:
  "getTransformedPoint (DEFAULT_SCALING dpr) identity_matrix x y
     = (x * DEFAULT_SCALING dpr, y * DEFAULT_SCALING dpr)
   \<and> DEFAULT_SCALING 2 = 2
   \<and> getTransformedPoint (DEFAULT_SCALING 2) identity_matrix 350 350 = (700, 700)"
  by (simp add: getTransformedPoint_def identity_matrix_def DEFAULT_SCALING_def)

subsection \<open>The bounds enforcer, field by field\<close>

lemma enforceBounds_ta: "ta (enforceBounds s r t) = max 1 (ta t)"
  by (simp add: enforceBounds_def Let_def max_def)

lemma enforceBounds_td: "td (enforceBounds s r t) = max 1 (td t)"
  by (simp add: enforceBounds_def Let_def max_def)

lemma enforceBounds_tb: "tb (enforceBounds s r t) = tb t"
  by (simp add: enforceBounds_def Let_def)

lemma enforceBounds_tc: "tc (enforceBounds s r t) = tc t"
  by (simp add: enforceBounds_def Let_def)

lemma enforceBounds_te:
  "te (enforceBounds s r t) =
     clamp_translation (- (width r * max 1 (ta t) - width r) * s) (te t)"
  by (simp add: enforceBounds_def Let_def max_def clamp_translation_def)

lemma enforceBounds_tf:
  "tf (enforceBounds s r t) =
     clamp_translation (- (height r * max 1 (td t) - height r) * s) (tf t)"
  by (simp add: enforceBounds_def Let_def max_def clamp_translation_def)

lemma enforceBounds_more: "dom_matrix.more (enforceBounds s r t) = dom_matrix.more t"
  by (simp add: enforceBounds_def Let_def)

lemmas enforceBounds_fields =
  enforceBounds_ta enforceBounds_tb enforceBounds_tc enforceBounds_td
  enforceBounds_te enforceBounds_tf enforceBounds_more

lemma clamp_translation_idem:
  "clamp_translation lo (clamp_translation lo v) = clamp_translation lo v"
  by (simp add: clamp_translation_def Let_def)

lemma clamp_translation_bounds:
  "lo \<le> 0 \<Longrightarrow> lo \<le> clamp_translation lo v \<and> clamp_translation lo v \<le> 0"
  by (simp add: clamp_translation_def Let_def)

text \<open>
  Claim C4. Enforcing the bounds twice gives the same matrix as enforcing them once, for
  every matrix, rectangle and density factor.
\<close>

theorem enforceBounds_idempotent:
  "enforceBounds s r (enforceBounds s r t) = enforceBounds s r t"
  by (rule dom_matrix.equality)
     (simp_all add: enforceBounds_fields clamp_translation_idem)

lemma max_translation_nonpos:
  assumes "0 \<le> (w::real)" and "0 \<le> (s::real)"
  shows "- (w * max 1 a - w) * s \<le> 0"
proof -
  have "w * 1 \<le> w * max 1 a"
    by (rule mult_left_mono) (simp_all add: assms(1))
  then have "- (w * max 1 a - w) \<le> 0" by simp
  then show ?thesis using assms(2) by (rule mult_nonpos_nonneg)
qed

text \<open>
  Claim C3. For a bounding rectangle (its width and height are never negative) and every
  input matrix, the matrix written back by \<open>enforceBounds\<close> has both scales at least 1, its
  horizontal translation between \<open>-(width * scaleX - width) * DEFAULT_SCALING\<close> and 0, with
  \<open>scaleX\<close> the scale written back, and its vertical translation in the symmetric interval.
  \<open>enforceBounds\<close> is a total function: it has a result for every input.
\<close>

theorem enforceBounds_postcondition:
  assumes "0 \<le> width r" and "0 \<le> height r"
  shows "1 \<le> ta (enforceBounds (DEFAULT_SCALING dpr) r t)
       \<and> 1 \<le> td (enforceBounds (DEFAULT_SCALING dpr) r t)
       \<and> - (width r * ta (enforceBounds (DEFAULT_SCALING dpr) r t) - width r)
             * DEFAULT_SCALING dpr
            \<le> te (enforceBounds (DEFAULT_SCALING dpr) r t)
       \<and> te (enforceBounds (DEFAULT_SCALING dpr) r t) \<le> 0
       \<and> - (height r * td (enforceBounds (DEFAULT_SCALING dpr) r t) - height r)
             * DEFAULT_SCALING dpr
            \<le> tf (enforceBounds (DEFAULT_SCALING dpr) r t)
       \<and> tf (enforceBounds (DEFAULT_SCALING dpr) r t) \<le> 0"
proof -
  have s: "0 \<le> DEFAULT_SCALING dpr"
    using DEFAULT_SCALING_ge_2 [of dpr] by simp
  have h: "- (width r * max 1 (ta t) - width r) * DEFAULT_SCALING dpr \<le> 0"
    using assms(1) s by (rule max_translation_nonpos)
  have v: "- (height r * max 1 (td t) - height r) * DEFAULT_SCALING dpr \<le> 0"
    using assms(2) s by (rule max_translation_nonpos)
  show ?thesis
    using clamp_translation_bounds [OF h, of "te t"] clamp_translation_bounds [OF v, of "tf t"]
    by (simp add: enforceBounds_fields)
qed

theorem enforceBounds_postcondition_witness:
  "0 \<le> width \<lparr>width = 700, height = 700\<rparr> \<and> 0 \<le> height \<lparr>width = 700, height = 700\<rparr>
   \<and> enforceBounds (DEFAULT_SCALING 2) \<lparr>width = 700, height = 700\<rparr>
        \<lparr>ta = 3, tb = 0, tc = 0, td = 1/2, te = - 5000, tf = 10\<rparr>
      = \<lparr>ta = 3, tb = 0, tc = 0, td = 1, te = - 2800, tf = 0\<rparr>
   \<and> 1 \<le> ta (enforceBounds (DEFAULT_SCALING 2) \<lparr>width = 700, height = 700\<rparr>
        \<lparr>ta = 3, tb = 0, tc = 0, td = 1/2, te = - 5000, tf = 10\<rparr>)
   \<and> te (enforceBounds (DEFAULT_SCALING 2) \<lparr>width = 700, height = 700\<rparr>
        \<lparr>ta = 3, tb = 0, tc = 0, td = 1/2, te = - 5000, tf = 10\<rparr>) \<le> 0"
  using enforceBounds_postcondition [of "\<lparr>width = 700, height = 700\<rparr>" 2
        "\<lparr>ta = 3, tb = 0, tc = 0, td = 1/2, te = - 5000, tf = 10\<rparr>"]
  by (simp add: enforceBounds_def DEFAULT_SCALING_def)

text \<open>
  Claim C1. Take a matrix of the viewport: uniform scale (\<open>a = d\<close>), no skew and a scale
  other than zero, as the matrix is in every state the component reaches (lemma
  \<open>reachable_viewport\<close> below), and a zoom factor other than zero. Let \<open>L\<close> be the logical point of
  a device point \<open>(x, y)\<close>. After \<open>translate(L)\<close>, \<open>scale(zoom, zoom)\<close>, \<open>translate(-L)\<close>, the
  composition of the wheel handler, the same device point is mapped to \<open>L\<close> again. The
  equality is exact over the reals.
\<close>

theorem zoom_pivot_round_trip:
  assumes "ta t = td t" and "tb t = 0" and "tc t = 0" and "ta t \<noteq> 0" and "zoom \<noteq> 0"
    and "L = getTransformedPoint s t x y"
  shows "getTransformedPoint s
           (ctx_translate (ctx_scale (ctx_translate t (fst L) (snd L)) zoom zoom)
              (- fst L) (- snd L)) x y = L"
  using assms
  by (simp add: getTransformedPoint_def ctx_translate_def ctx_scale_def Let_def field_simps)

theorem zoom_pivot_round_trip_witness:
  "ta identity_matrix = td identity_matrix \<and> tb identity_matrix = 0 \<and> tc identity_matrix = 0
   \<and> ta identity_matrix \<noteq> 0 \<and> (51/50 :: real) \<noteq> 0
   \<and> (700, 700) = getTransformedPoint (DEFAULT_SCALING 2) identity_matrix 350 350
   \<and> getTransformedPoint (DEFAULT_SCALING 2)
        (ctx_translate (ctx_scale (ctx_translate identity_matrix 700 700) (51/50) (51/50))
           (- 700) (- 700)) 350 350 = (700, 700)"
proof -
  let ?L = "(700, 700) :: point"
  have L: "?L = getTransformedPoint (DEFAULT_SCALING 2) identity_matrix 350 350"
    by (simp add: getTransformedPoint_def identity_matrix_def DEFAULT_SCALING_def)
  have "getTransformedPoint (DEFAULT_SCALING 2)
        (ctx_translate (ctx_scale (ctx_translate identity_matrix (fst ?L) (snd ?L))
           (51/50) (51/50)) (- fst ?L) (- snd ?L)) 350 350 = ?L"
    by (rule zoom_pivot_round_trip [OF _ _ _ _ _ L]) (simp_all add: identity_matrix_def)
  then show ?thesis using L [symmetric] by (simp add: identity_matrix_def)
qed

section \<open>Properties of the rounding\<close>

lemma ulp_pos: "0 < ulp x"
  by (simp add: ulp_def)

lemma round_half_even_of_int: "round_half_even (of_int m) = m"
  by (simp add: round_half_even_def)

lemma round_half_even_lower: "z - 1/2 \<le> of_int (round_half_even z)"
  by (simp add: round_half_even_def Let_def) linarith

lemma round_half_even_nonpos:
  assumes "z \<le> 0"
  shows "round_half_even z \<le> 0"
proof -
  have f: "\<lfloor>z\<rfloor> \<le> 0" using assms by (simp add: floor_le_iff)
  show ?thesis
  proof (cases "z - of_int \<lfloor>z\<rfloor> < 1/2")
    case True
    then show ?thesis using f by (simp add: round_half_even_def)
  next
    case False
    then have "of_int \<lfloor>z\<rfloor> < z" by linarith
    with assms have "of_int \<lfloor>z\<rfloor> < (0::real)" by linarith
    then have "\<lfloor>z\<rfloor> < 0" by simp
    then have "\<lfloor>z\<rfloor> + 1 \<le> 0" by linarith
    then show ?thesis using f by (simp add: round_half_even_def Let_def)
  qed
qed

lemma round_double_lower: "x - ulp x / 2 \<le> round_double x"
proof (cases "x = 0")
  case True
  then show ?thesis using ulp_pos [of 0] by (simp add: round_double_def)
next
  case False
  have "(x / ulp x - 1/2) * ulp x \<le> of_int (round_half_even (x / ulp x)) * ulp x"
    using round_half_even_lower [of "x / ulp x"] ulp_pos [of x]
    by (intro mult_right_mono) simp_all
  moreover have "(x / ulp x - 1/2) * ulp x = x - ulp x / 2"
    using ulp_pos [of x] by (simp add: field_simps)
  ultimately show ?thesis using False by (simp add: round_double_def)
qed

lemma round_double_nonpos:
  assumes "x \<le> 0"
  shows "round_double x \<le> 0"
proof (cases "x = 0")
  case True
  then show ?thesis by (simp add: round_double_def)
next
  case False
  have "x / ulp x \<le> 0" using assms ulp_pos [of x] by (simp add: divide_le_0_iff)
  then have "round_half_even (x / ulp x) \<le> 0" by (rule round_half_even_nonpos)
  then have "of_int (round_half_even (x / ulp x)) * ulp x \<le> 0"
    using ulp_pos [of x] by (simp add: mult_le_0_iff)
  then show ?thesis using False by (simp add: round_double_def)
qed

lemma floor_log2_less:
  assumes "0 < y" and "y < 2 powi j"
  shows "\<lfloor>log 2 y\<rfloor> < j"
proof -
  have "y < 2 powr real_of_int j" using assms(2) by (simp add: powr_real_of_int')
  then have "log 2 y < real_of_int j" using assms(1) by (simp add: log_less_iff)
  then show ?thesis by (simp add: floor_less_iff)
qed

lemma floor_log2_ge:
  assumes "0 < y" and "2 powi j \<le> y"
  shows "j \<le> \<lfloor>log 2 y\<rfloor>"
proof -
  have "2 powr real_of_int j \<le> y" using assms(2) by (simp add: powr_real_of_int')
  then have "real_of_int j \<le> log 2 y" using assms(1) by (simp add: le_log_iff)
  then show ?thesis by (simp add: le_floor_iff)
qed

lemma powi_floor_log2_le:
  assumes "0 < y"
  shows "2 powi \<lfloor>log 2 y\<rfloor> \<le> y"
proof -
  have "real_of_int \<lfloor>log 2 y\<rfloor> \<le> log 2 y" by simp
  moreover have "(real_of_int \<lfloor>log 2 y\<rfloor> \<le> log 2 y) = (2 powr real_of_int \<lfloor>log 2 y\<rfloor> \<le> y)"
    by (rule le_log_iff) (use assms in simp_all)
  ultimately have "2 powr real_of_int \<lfloor>log 2 y\<rfloor> \<le> y" by blast
  then show ?thesis by (simp add: powr_real_of_int')
qed


lemma ulp_le:
  assumes "0 < y"
  shows "ulp y \<le> max (y / 2 ^ 52) (2 powi (- 1074))"
proof (cases "- 1022 \<le> \<lfloor>log 2 y\<rfloor>")
  case True
  then have "ulp y = 2 powi (\<lfloor>log 2 y\<rfloor> - 52)"
    using assms by (simp add: ulp_def binary_exponent_def max_def)
  also have "\<dots> = 2 powi \<lfloor>log 2 y\<rfloor> / 2 ^ 52"
    by (simp add: power_int_diff)
  also have "\<dots> \<le> y / 2 ^ 52"
    using powi_floor_log2_le [OF assms] by (simp add: divide_right_mono)
  finally show ?thesis by simp
next
  case False
  then have "ulp y = 2 powi (- 1074)"
    using assms by (simp add: ulp_def binary_exponent_def max_def)
  then show ?thesis by simp
qed

lemma ulp_ge_min: "2 powi (- 1074) \<le> ulp x"
proof -
  have "(- 1074 :: int) \<le> binary_exponent x - 52" by (simp add: binary_exponent_def)
  then show ?thesis unfolding ulp_def by (intro power_int_increasing) simp_all
qed

lemma double_ge_min:
  assumes "0 < c" and "round_double c = c"
  shows "2 powi (- 1074) \<le> c"
proof -
  from assms have c: "c = of_int (round_half_even (c / ulp c)) * ulp c"
    by (simp add: round_double_def split: if_splits)
  have "0 < round_half_even (c / ulp c)"
  proof (rule ccontr)
    assume "\<not> 0 < round_half_even (c / ulp c)"
    then have "of_int (round_half_even (c / ulp c)) * ulp c \<le> 0"
      using ulp_pos [of c] by (simp add: mult_le_0_iff)
    with c assms(1) show False by simp
  qed
  then have "1 \<le> (of_int (round_half_even (c / ulp c)) :: real)" by simp
  then have "1 * ulp c \<le> of_int (round_half_even (c / ulp c)) * ulp c"
    using ulp_pos [of c] by (intro mult_right_mono) simp_all
  with c have "ulp c \<le> c" by simp
  with ulp_ge_min [of c] show ?thesis by simp
qed

text \<open>
  A natural number of at most 53 bits times a power of two that is not below the smallest
  subnormal is a binary64 number: rounding leaves it as it is.
\<close>

lemma round_double_exact:
  assumes "m \<le> 2 ^ 53" and "- 1074 \<le> k"
  shows "round_double (real m * 2 powi k) = real m * 2 powi k"
proof (cases "m = 0")
  case True
  then show ?thesis by (simp add: round_double_def)
next
  case False
  define y where "y = real m * 2 powi k"
  have ypos: "0 < y" using False by (simp add: y_def)
  define e where "e = binary_exponent y"
  have e_low: "- 1022 \<le> e" by (simp add: e_def binary_exponent_def)
  show ?thesis
  proof (cases "m = 2 ^ 53")
    case True
    then have y2: "y = 2 powi (53 + k)" by (simp add: y_def power_int_add)
    have "\<lfloor>log 2 y\<rfloor> = 53 + k"
    proof (rule antisym)
      have "y < 2 powi (53 + k + 1)" unfolding y2 by (intro power_int_strict_increasing) simp_all
      from floor_log2_less [OF ypos this] show "\<lfloor>log 2 y\<rfloor> \<le> 53 + k" by simp
      show "53 + k \<le> \<lfloor>log 2 y\<rfloor>" by (rule floor_log2_ge [OF ypos]) (simp add: y2)
    qed
    then have e: "binary_exponent y = 53 + k"
      using assms(2) ypos by (simp add: binary_exponent_def)
    have u: "ulp y = 2 powi (1 + k)" by (simp add: ulp_def e)
    have "y / ulp y = y / 2 powi (1 + k)" by (simp only: u)
    also have "\<dots> = 2 powi (53 + k) / 2 powi (1 + k)" by (simp only: y2)
    also have "\<dots> = 2 powi (53 + k - (1 + k))" by (subst power_int_diff) simp_all
    also have "\<dots> = of_int (2 ^ 52)" by simp
    finally have "round_half_even (y / ulp y) = 2 ^ 52" by (simp only: round_half_even_of_int)
    then have "round_double y = 2 ^ 52 * 2 powi (1 + k)"
      using ypos by (simp add: round_double_def u)
    also have "\<dots> = 2 powi (52 + (1 + k))" by (subst power_int_add) simp_all
    also have "\<dots> = y" by (simp add: y2 add.assoc [symmetric])
    finally show ?thesis by (simp only: y_def)
  next
    case False
    with assms(1) have "m < 2 ^ 53" by simp
    then have "real m < 2 ^ 53" using of_nat_less_iff [of m "2 ^ 53", where 'a = real] by simp
    then have "y < 2 ^ 53 * 2 powi k" by (simp add: y_def)
    also have "\<dots> = 2 powi (53 + k)" by (simp add: power_int_add)
    finally have "\<lfloor>log 2 y\<rfloor> < 53 + k" by (rule floor_log2_less [OF ypos])
    then have e_up: "e \<le> 52 + k" using assms(2) ypos by (simp add: e_def binary_exponent_def)
    define j where "j = nat (k - (e - 52))"
    have j: "int j = k - (e - 52)" using e_up by (simp add: j_def)
    have "y / 2 powi (e - 52) = real m * 2 powi (k - (e - 52))"
      by (simp add: y_def power_int_diff)
    also have "\<dots> = real m * 2 ^ j" by (simp add: j [symmetric])
    also have "\<dots> = of_int (int m * 2 ^ j)" by simp
    finally have z: "y / ulp y = of_int (int m * 2 ^ j)" by (simp add: ulp_def e_def)
    have r: "round_half_even (y / ulp y) = int m * 2 ^ j"
      by (simp only: z round_half_even_of_int)
    have "round_double y = of_int (round_half_even (y / ulp y)) * ulp y"
      using ypos by (simp add: round_double_def)
    also have "\<dots> = y / ulp y * ulp y" by (subst r, subst z) (rule refl)
    also have "\<dots> = y" using ulp_pos [of y] by simp
    finally show ?thesis by (simp add: y_def)
  qed
qed

lemma round_double_nat:
  assumes "n \<le> 2 ^ 53"
  shows "round_double (real n) = real n"
  using round_double_exact [OF assms, of 0] by simp

text \<open>
  Half a unit in the last place above 512 is a tie, and 512 has the even significand.
\<close>

lemma round_double_tie: "round_double (512 + 2 powi (- 44)) = 512"
proof -
  define y :: real where "y = 512 + 2 powi (- 44)"
  have ypos: "0 < y" by (simp add: y_def add_pos_pos)
  have small: "(2::real) powi (- 44) < 1"
    using power_int_strict_increasing [of "- 44" 0 "2::real"] by simp
  have "\<lfloor>log 2 y\<rfloor> = 9"
  proof (rule antisym)
    have "y < 2 powi 10" using small by (simp add: y_def)
    from floor_log2_less [OF ypos this] show "\<lfloor>log 2 y\<rfloor> \<le> 9" by simp
    have "2 powi 9 \<le> y" by (simp add: y_def)
    from floor_log2_ge [OF ypos this] show "9 \<le> \<lfloor>log 2 y\<rfloor>" .
  qed
  then have u: "ulp y = 2 powi (- 43)" using ypos by (simp add: ulp_def binary_exponent_def)
  have "y / ulp y = y / 2 powi (- 43)" by (simp only: u)
  also have "\<dots> = (512 + 2 powi (- 44)) / 2 powi (- 43)"
    by (simp only: y_def)
  also have "\<dots> = 512 / 2 powi (- 43) + 2 powi (- 44) / 2 powi (- 43)"
    by (rule add_divide_distrib)
  also have "512 / 2 powi (- 43) = (2::real) powi (9 - (- 43))"
    by (subst power_int_diff) simp_all
  also have "2 powi (- 44) / 2 powi (- 43) = (2::real) powi (- 44 - (- 43))"
    by (subst power_int_diff) simp_all
  finally have z: "y / ulp y = 2 ^ 52 + 1 / 2" by (simp add: power_int_minus)
  have "round_half_even (2 ^ 52 + 1 / 2) = 2 ^ 52"
  proof -
    have f: "\<lfloor>(2 ^ 52 + 1 / 2 :: real)\<rfloor> = 2 ^ 52" by (simp add: floor_eq_iff)
    show ?thesis by (simp add: round_half_even_def f)
  qed
  then have r: "round_half_even (y / ulp y) = 2 ^ 52" by (simp only: z)
  have "of_int (round_half_even (y / ulp y)) * ulp y = 2 ^ 52 * 2 powi (- 43)"
    by (subst r, subst u) simp
  then have "round_double y = 2 ^ 52 * 2 powi (- 43)"
    using ypos by (simp only: round_double_def) simp
  also have "\<dots> = (2::real) powi (52 + (- 43))" by (subst power_int_add) simp_all
  also have "\<dots> = 512" by simp
  finally show ?thesis by (simp only: y_def)
qed

lemma round_double_1400: "round_double 1400 = 1400"
  using round_double_nat [of 1400] by simp

lemma is_double_40: "is_double 40"
  using round_double_nat [of 40] by (simp add: is_double_def)

lemma is_double_700: "is_double 700"
  using round_double_nat [of 700] by (simp add: is_double_def)

lemma is_double_tiny: "is_double (2 powi (- 44))"
  using round_double_exact [of 1 "- 44"] by (simp add: is_double_def)

text \<open>A positive binary64 number times a factor of at least 2 has a positive product.\<close>

lemma fmul_pos:
  assumes "0 < w" and "is_double w" and "2 \<le> s"
  shows "0 < fmul w s"
proof -
  have ypos: "0 < w * s" using assms(1,3) by (simp add: zero_less_mult_iff)
  have "w * 2 \<le> w * s" using assms(1,3) by (intro mult_left_mono) simp_all
  then have wy: "w \<le> w * s / 2" by simp
  have "2 powi (- 1074) \<le> w"
    using assms(1,2) by (intro double_ge_min) (simp_all add: is_double_def)
  from this wy have a: "2 powi (- 1074) \<le> w * s / 2" by (rule order_trans)
  have "w * s / 2 ^ 52 \<le> w * s / 2 ^ 1"
    using ypos by (intro divide_left_mono power_increasing) simp_all
  then have b: "w * s / 2 ^ 52 \<le> w * s / 2" by simp
  have "max (w * s / 2 ^ 52) (2 powi (- 1074)) \<le> w * s / 2"
    using b a by (rule max.boundedI)
  with ulp_le [OF ypos] have "ulp (w * s) \<le> w * s / 2" by (rule order_trans)
  with round_double_lower [of "w * s"] ypos show ?thesis by (simp add: fmul_def)
qed

section \<open>The grid loops\<close>

text \<open>
  A loop never returns when some property holds of its variable at the start, keeps the
  variable below the bound and is kept by the rounded addition of the step. By induction
  on the computation of the loop.
\<close>

lemma for_loop_stuck:
  assumes start: "I x"
    and keep: "\<And>y. I y \<Longrightarrow> y < bound \<and> I (fadd y step)"
  shows "for_loop body bound step x acc = None"
proof (rule ccontr)
  assume "for_loop body bound step x acc \<noteq> None"
  then obtain ops where ret: "for_loop body bound step x acc = Some ops" by blast
  note ind = for_loop.raw_induct [where xa = "((((body, bound), step), x), acc)" and y = ops
      and P = "\<lambda>b bd s y a r. bd = bound \<longrightarrow> s = step \<longrightarrow> \<not> I y", simplified, OF _ ret]
  have "\<not> I x"
  proof (rule ind)
    fix loop :: "(real \<Rightarrow> canvas_op) \<Rightarrow> real \<Rightarrow> real \<Rightarrow> real \<Rightarrow> canvas_op list
                  \<Rightarrow> canvas_op list option"
    fix body' bound' step' x' acc' ops'
    assume IH: "\<And>b bd s y a r. loop b bd s y a = Some r \<Longrightarrow> bd = bound \<longrightarrow> s = step \<longrightarrow> \<not> I y"
      and unfold: "(if x' < bound' then loop body' bound' step' (fadd x' step') (acc' @ [body' x'])
                    else Some acc') = Some ops'"
    show "bound' = bound \<longrightarrow> step' = step \<longrightarrow> \<not> I x'"
    proof (intro impI notI)
      assume b: "bound' = bound" and s: "step' = step" and i: "I x'"
      from keep [OF i] have lt: "x' < bound" and next_i: "I (fadd x' step)" by simp_all
      with unfold b s have "loop body' bound step (fadd x' step) (acc' @ [body' x']) = Some ops'"
        by simp
      from IH [OF this] next_i show False by simp
    qed
  qed
  with start show False by simp
qed

text \<open>With a step of zero or below the variable never rises above zero.\<close>

lemma for_loop_diverges:
  assumes "step \<le> 0" and "x \<le> 0" and "0 < bound"
  shows "for_loop body bound step x acc = None"
proof (rule for_loop_stuck [where I = "\<lambda>y. y \<le> 0"])
  show "x \<le> 0" by fact
  fix y :: real
  assume "y \<le> 0"
  then have "y + step \<le> 0" using assms(1) by simp
  then have "fadd y step \<le> 0" unfolding fadd_def by (rule round_double_nonpos)
  with \<open>y \<le> 0\<close> assms(3) show "y < bound \<and> fadd y step \<le> 0" by simp
qed

text \<open>
  With the step \<open>2 powi (-44)\<close> the variable runs through the multiples of the step up to
  512, the \<open>2 ^ 53\<close>-th one, where the sum with the step rounds back to 512.
\<close>

lemma for_loop_stalls:
  assumes "512 < bound"
  shows "for_loop body bound (2 powi (- 44)) 0 acc = None"
proof (rule for_loop_stuck [where I = "\<lambda>y. \<exists>m::nat. m \<le> 2 ^ 53 \<and> y = real m * 2 powi (- 44)"])
  show "\<exists>m::nat. m \<le> 2 ^ 53 \<and> (0::real) = real m * 2 powi (- 44)"
    by (intro exI [of _ 0]) simp
next
  fix y :: real
  assume "\<exists>m::nat. m \<le> 2 ^ 53 \<and> y = real m * 2 powi (- 44)"
  then obtain m :: nat where m: "m \<le> 2 ^ 53" and y: "y = real m * 2 powi (- 44)" by blast
  have top: "(2::real) ^ 53 * 2 powi (- 44) = 512"
  proof -
    have "(2::real) ^ 53 * 2 powi (- 44) = 2 powi (53 + (- 44))"
      by (subst power_int_add) simp_all
    then show ?thesis by simp
  qed
  have "real m \<le> 2 ^ 53" using m of_nat_le_iff [of m "2 ^ 53", where 'a = real] by simp
  then have "y \<le> 2 ^ 53 * 2 powi (- 44)" unfolding y by (intro mult_right_mono) simp_all
  then have lt: "y < bound" using top assms by simp
  have "\<exists>m'::nat. m' \<le> 2 ^ 53 \<and> fadd y (2 powi (- 44)) = real m' * 2 powi (- 44)"
  proof (cases "m = 2 ^ 53")
    case True
    then have "y = 512" using top by (simp add: y)
    then have "fadd y (2 powi (- 44)) = 512" by (simp only: fadd_def round_double_tie)
    then have "fadd y (2 powi (- 44)) = real (2 ^ 53) * 2 powi (- 44)" using top by simp
    then show ?thesis by (intro exI [of _ "2 ^ 53"]) simp
  next
    case False
    with m have m1: "m + 1 \<le> 2 ^ 53" by simp
    have "y + 2 powi (- 44) = real (m + 1) * 2 powi (- 44)"
      by (simp add: y algebra_simps)
    then have "fadd y (2 powi (- 44)) = round_double (real (m + 1) * 2 powi (- 44))"
      by (simp only: fadd_def)
    also have "\<dots> = real (m + 1) * 2 powi (- 44)"
      by (rule round_double_exact [OF m1]) simp
    finally show ?thesis using m1 by blast
  qed
  with lt show "y < bound \<and> (\<exists>m'::nat. m' \<le> 2 ^ 53 \<and> fadd y (2 powi (- 44)) = real m' * 2 powi (- 44))"
    by simp
qed

text \<open>Whatever a loop returns is what it started with followed by calls of its body.\<close>

lemma for_loop_lines:
  assumes "for_loop body bound step x acc = Some ops"
  shows "\<exists>xs. ops = acc @ map body xs"
proof (rule for_loop.raw_induct [where xa = "((((body, bound), step), x), acc)" and y = ops
    and P = "\<lambda>b bd s y a r. \<exists>xs. r = a @ map b xs", simplified, OF _ assms])
  fix loop :: "(real \<Rightarrow> canvas_op) \<Rightarrow> real \<Rightarrow> real \<Rightarrow> real \<Rightarrow> canvas_op list
                \<Rightarrow> canvas_op list option"
  fix body' bound' step' x' acc' ops'
  assume IH: "\<And>b bd s y a r. loop b bd s y a = Some r \<Longrightarrow> \<exists>xs. r = a @ map b xs"
    and unfold: "(if x' < bound' then loop body' bound' step' (fadd x' step') (acc' @ [body' x'])
                  else Some acc') = Some ops'"
  show "\<exists>xs. ops' = acc' @ map body' xs"
  proof (cases "x' < bound'")
    case True
    with unfold have "loop body' bound' step' (fadd x' step') (acc' @ [body' x']) = Some ops'"
      by simp
    from IH [OF this] obtain xs where "ops' = (acc' @ [body' x']) @ map body' xs" by blast
    then have "ops' = acc' @ map body' (x' # xs)" by simp
    then show ?thesis by blast
  next
    case False
    with unfold have "ops' = acc' @ map body' []" by simp
    then show ?thesis by blast
  qed
qed

text \<open>
  When the bound is at most \<open>2 ^ 51\<close> steps, a sum below the bound plus the step is
  rounded by at most half the step, so the variable grows by at least half the step at
  each iteration and the loop returns.
\<close>

lemma fadd_progress:
  assumes "0 < step" and "is_double step" and "0 \<le> x" and "x < bound"
    and "bound \<le> step * 2 ^ 51"
  shows "x + step / 2 \<le> fadd x step"
proof -
  have ypos: "0 < x + step" using assms(1,3) by simp
  have "x + step \<le> step * 2 ^ 51 + step" using assms(4,5) by simp
  also have "\<dots> \<le> step * 2 ^ 52" using assms(1) by simp
  finally have a: "(x + step) / 2 ^ 52 \<le> step" by (simp add: field_simps)
  have b: "2 powi (- 1074) \<le> step"
    using assms(1,2) by (intro double_ge_min) (simp_all add: is_double_def)
  have "max ((x + step) / 2 ^ 52) (2 powi (- 1074)) \<le> step"
    using a b by (rule max.boundedI)
  with ulp_le [OF ypos] have "ulp (x + step) \<le> step" by (rule order_trans)
  with round_double_lower [of "x + step"] show ?thesis by (simp add: fadd_def)
qed

lemma for_loop_returns:
  assumes "0 < step" and "is_double step" and "bound \<le> step * 2 ^ 51" and "0 \<le> x"
  shows "\<exists>xs. for_loop body bound step x acc = Some (acc @ map body xs)
            \<and> length xs \<le> nat \<lceil>2 * (bound - x) / step\<rceil>"
  using assms(4)
proof (induction "nat \<lceil>2 * (bound - x) / step\<rceil>" arbitrary: x acc rule: less_induct)
  case less
  show ?case
  proof (cases "x < bound")
    case False
    then have "for_loop body bound step x acc = Some (acc @ map body [])"
      by (subst for_loop.simps) simp
    then show ?thesis by (intro exI [of _ "[]"]) simp
  next
    case True
    have prog: "x + step / 2 \<le> fadd x step"
      using assms(1,2) less.prems True assms(3) by (rule fadd_progress)
    then have nonneg: "0 \<le> fadd x step" using less.prems assms(1) by simp
    have "2 * (bound - fadd x step) \<le> 2 * (bound - x) - step" using prog by simp
    then have "2 * (bound - fadd x step) / step \<le> (2 * (bound - x) - step) / step"
      using assms(1) by (simp add: divide_right_mono)
    also have "\<dots> = 2 * (bound - x) / step - 1"
      using assms(1) by (simp add: diff_divide_distrib)
    finally have r: "2 * (bound - fadd x step) / step \<le> 2 * (bound - x) / step - 1" .
    have "0 < 2 * (bound - x) / step" using True assms(1) by simp
    then have c1: "1 \<le> \<lceil>2 * (bound - x) / step\<rceil>" by (simp add: less_ceiling_iff)
    have "\<lceil>2 * (bound - fadd x step) / step\<rceil> \<le> \<lceil>2 * (bound - x) / step - 1\<rceil>"
      using r by (rule ceiling_mono)
    then have "\<lceil>2 * (bound - fadd x step) / step\<rceil> \<le> \<lceil>2 * (bound - x) / step\<rceil> - 1"
      by simp
    with c1 have dec: "nat \<lceil>2 * (bound - fadd x step) / step\<rceil> < nat \<lceil>2 * (bound - x) / step\<rceil>"
      by linarith
    from less.hyps [OF dec nonneg, of "acc @ [body x]"] obtain xs
      where ret: "for_loop body bound step (fadd x step) (acc @ [body x])
                    = Some ((acc @ [body x]) @ map body xs)"
        and len: "length xs \<le> nat \<lceil>2 * (bound - fadd x step) / step\<rceil>" by blast
    have "for_loop body bound step x acc = Some (acc @ map body (x # xs))"
      using True ret by (subst for_loop.simps) simp
    moreover have "length (x # xs) \<le> nat \<lceil>2 * (bound - x) / step\<rceil>"
    proof -
      have "length (x # xs) = Suc (length xs)" by simp
      with len dec show ?thesis by linarith
    qed
    ultimately show ?thesis by blast
  qed
qed

text \<open>
  With natural numbers that stay below \<open>2 ^ 53\<close> every sum is exact, and the loop calls
  its body at \<open>x\<close>, \<open>x + c\<close>, \<open>x + 2 * c\<close> and so on below the bound.
\<close>

lemma fadd_nat:
  assumes "x + c \<le> 2 ^ 53"
  shows "fadd (real x) (real c) = real (x + c)"
  using round_double_nat [OF assms] by (simp add: fadd_def)

lemma for_loop_nat:
  assumes "0 < c" and "bound + real c \<le> 2 ^ 53"
  shows "for_loop body bound (real c) (real x) acc =
           Some (acc @ map (\<lambda>k. body (real (x + k * c)))
                         [0..<nat \<lceil>(bound - real x) / real c\<rceil>])"
  using assms
proof (induction "nat \<lceil>(bound - real x) / real c\<rceil>" arbitrary: x acc)
  case 0
  then have "\<lceil>(bound - real x) / real c\<rceil> \<le> 0" by simp
  then have "(bound - real x) / real c \<le> 0" by (simp add: ceiling_le_iff)
  then have "\<not> real x < bound" using \<open>0 < c\<close> by (simp add: divide_le_0_iff)
  then show ?case using 0 by (subst for_loop.simps) simp
next
  case (Suc n)
  then have pos: "0 < \<lceil>(bound - real x) / real c\<rceil>" by linarith
  then have "0 < (bound - real x) / real c" by (simp add: less_ceiling_iff)
  then have lt: "real x < bound" using \<open>0 < c\<close> by (simp add: zero_less_divide_iff)
  with assms(2) have "real x + real c \<le> 2 ^ 53" by simp
  then have "real (x + c) \<le> real (2 ^ 53)" by simp
  then have "x + c \<le> 2 ^ 53" by (simp only: of_nat_le_iff)
  then have step: "fadd (real x) (real c) = real (x + c)" by (rule fadd_nat)
  have "(bound - real (x + c)) / real c = (bound - real x) / real c - 1"
    using \<open>0 < c\<close> by (simp add: field_simps)
  then have n: "n = nat \<lceil>(bound - real (x + c)) / real c\<rceil>"
    using Suc.hyps(2) by simp
  have IH: "for_loop body bound (real c) (real (x + c)) (acc @ [body (real x)]) =
      Some ((acc @ [body (real x)]) @ map (\<lambda>k. body (real (x + c + k * c))) [0..<n])"
    using Suc.hyps(1) [OF n Suc.prems] n by simp
  have "map (\<lambda>k. body (real (x + k * c))) [0..<Suc n]
          = body (real x) # map (\<lambda>k. body (real (x + c + k * c))) [0..<n]"
    by (simp add: map_upt_Suc algebra_simps del: upt_Suc)
  then show ?case
    using lt IH Suc.hyps(2) [symmetric] by (subst for_loop.simps) (simp add: step)
qed

lemma demo_simps:
  "grid_cellSize (demo ds z c) = c"
  "canvas_rect (demo ds z c) = \<lparr>width = 700, height = 700\<rparr>"
  "canvas_scaling (demo ds z c) = 2"
  "grid_enabled (demo ds z c)"
  "drawables (demo ds z c) = Some ds"
  "maxZoom (demo ds z c) = z"
  "grid_lineWidth (demo ds z c) = 1"
  "grid_lineColor (demo ds z c) = ''#e6e6e6''"
  by (simp_all add: demo_def demo_grid_def grid_cellSize_def canvas_scaling_def
        DEFAULT_SCALING_def grid_enabled_def grid_lineWidth_def grid_lineColor_def)

lemma demo_scaled:
  "scaledWidth (demo ds z c) = 1400" "scaledHeight (demo ds z c) = 1400"
  by (simp_all add: scaledWidth_def scaledHeight_def fmul_def demo_simps round_double_1400)

subsection \<open>The two loops of the grid\<close>

lemma drawGrid_returns:
  assumes "0 < grid_cellSize cfg" and "is_double (grid_cellSize cfg)"
    and "scaledWidth cfg \<le> grid_cellSize cfg * 2 ^ 51"
    and "scaledHeight cfg \<le> grid_cellSize cfg * 2 ^ 51"
  shows "\<exists>xs ys. drawGrid cfg = Some (map (vertical_line cfg) xs @ map (horizontal_line cfg) ys)
           \<and> length xs \<le> nat \<lceil>2 * scaledWidth cfg / grid_cellSize cfg\<rceil>
           \<and> length ys \<le> nat \<lceil>2 * scaledHeight cfg / grid_cellSize cfg\<rceil>"
proof -
  from for_loop_returns [OF assms(1,2,3), of 0 "vertical_line cfg" "[]"] obtain xs
    where v: "for_loop (vertical_line cfg) (scaledWidth cfg) (grid_cellSize cfg) 0 []
                = Some (map (vertical_line cfg) xs)"
      and lv: "length xs \<le> nat \<lceil>2 * scaledWidth cfg / grid_cellSize cfg\<rceil>" by auto
  from for_loop_returns [OF assms(1,2,4), of 0 "horizontal_line cfg" "map (vertical_line cfg) xs"]
  obtain ys
    where h: "for_loop (horizontal_line cfg) (scaledHeight cfg) (grid_cellSize cfg) 0
                (map (vertical_line cfg) xs)
                = Some (map (vertical_line cfg) xs @ map (horizontal_line cfg) ys)"
      and lh: "length ys \<le> nat \<lceil>2 * scaledHeight cfg / grid_cellSize cfg\<rceil>" by auto
  have "drawGrid cfg = Some (map (vertical_line cfg) xs @ map (horizontal_line cfg) ys)"
    by (simp add: drawGrid_def v h)
  with lv lh show ?thesis by blast
qed

lemma drawGrid_diverges:
  assumes "grid_cellSize cfg \<le> 0"
    and "0 < scaledWidth cfg \<or> 0 < scaledHeight cfg"
  shows "drawGrid cfg = None"
proof (cases "0 < scaledWidth cfg")
  case True
  from for_loop_diverges [OF assms(1) order_refl this] show ?thesis
    by (simp add: drawGrid_def)
next
  case False
  then have nolines: "for_loop (vertical_line cfg) (scaledWidth cfg) (grid_cellSize cfg) 0 []
                        = Some []"
    by (subst for_loop.simps) simp
  from False assms(2) have "0 < scaledHeight cfg" by simp
  from for_loop_diverges [OF assms(1) order_refl this] nolines show ?thesis
    by (simp add: drawGrid_def)
qed

lemma drawGrid_stalls:
  assumes "grid_cellSize cfg = 2 powi (- 44)" and "512 < scaledWidth cfg"
  shows "drawGrid cfg = None"
  using for_loop_stalls [OF assms(2)] by (simp add: drawGrid_def assms(1))

lemma drawGrid_lines:
  assumes "drawGrid cfg = Some grid"
  shows "\<exists>xs ys. grid = map (vertical_line cfg) xs @ map (horizontal_line cfg) ys"
proof -
  from assms obtain ops
    where v: "for_loop (vertical_line cfg) (scaledWidth cfg) (grid_cellSize cfg) 0 [] = Some ops"
      and h: "for_loop (horizontal_line cfg) (scaledHeight cfg) (grid_cellSize cfg) 0 ops
                = Some grid"
    by (auto simp: drawGrid_def split: option.splits)
  from for_loop_lines [OF v] obtain xs where "ops = map (vertical_line cfg) xs" by auto
  moreover from for_loop_lines [OF h] obtain ys where "grid = ops @ map (horizontal_line cfg) ys"
    by auto
  ultimately show ?thesis by blast
qed

lemma drawGrid_empty:
  assumes "scaledWidth cfg \<le> 0" and "scaledHeight cfg \<le> 0"
  shows "drawGrid cfg = Some []"
proof -
  have "for_loop (vertical_line cfg) (scaledWidth cfg) (grid_cellSize cfg) 0 [] = Some []"
    using assms(1) by (subst for_loop.simps) simp
  moreover
  have "for_loop (horizontal_line cfg) (scaledHeight cfg) (grid_cellSize cfg) 0 [] = Some []"
    using assms(2) by (subst for_loop.simps) simp
  ultimately show ?thesis by (simp add: drawGrid_def)
qed

lemma drawGrid_40:
  assumes "scaledWidth cfg = 1400" and "scaledHeight cfg = 1400"
    and "grid_cellSize cfg = 40"
    and "grid_lineWidth cfg = 1" and "grid_lineColor cfg = ''#e6e6e6''"
  shows "drawGrid cfg = Some grid_40"
proof -
  have c: "(1400::real) + real 40 \<le> 2 ^ 53" by simp
  have n: "nat \<lceil>(1400 - real 0) / real 40\<rceil> = 35" by simp
  have v: "for_loop (vertical_line cfg) 1400 40 0 [] =
             Some (map (\<lambda>k. vertical_line cfg (real (k * 40))) [0..<35])"
    using for_loop_nat [of 40 1400 "vertical_line cfg" 0 "[]", OF _ c] by (simp only: n) simp
  have h: "for_loop (horizontal_line cfg) 1400 40 0 ops =
             Some (ops @ map (\<lambda>k. horizontal_line cfg (real (k * 40))) [0..<35])" for ops
    using for_loop_nat [of 40 1400 "horizontal_line cfg" 0 ops, OF _ c] by (simp only: n) simp
  have "drawGrid cfg =
          Some (map (\<lambda>k. vertical_line cfg (real (k * 40))) [0..<35]
                @ map (\<lambda>k. horizontal_line cfg (real (k * 40))) [0..<35])"
    by (simp add: drawGrid_def assms(1,2,3) v h)
  also have "\<dots> = Some grid_40"
    by (simp add: grid_40_def vertical_line_def horizontal_line_def drawLine_def assms
          mult.commute)
  finally show ?thesis .
qed

text \<open>
  Claim C10, as amended. With a positive cell size that is not negligible against the
  scaled sides of the canvas (each side is at most \<open>2 ^ 51\<close> cells) both loops of
  \<open>drawGrid\<close> return, the first after at most \<open>\<lceil>2 * scaledWidth / cellSize\<rceil>\<close> iterations
  and the second after at most \<open>\<lceil>2 * scaledHeight / cellSize\<rceil>\<close>: the loop variable grows
  by at least half the cell size at each iteration. With a cell size of zero or below and
  a positive scaled width or height, as a rectangle of positive width or height has,
  \<open>drawGrid\<close> never returns.
\<close>

theorem drawGrid_termination:
  "(0 < grid_cellSize cfg \<and> is_double (grid_cellSize cfg)
      \<and> scaledWidth cfg \<le> grid_cellSize cfg * 2 ^ 51
      \<and> scaledHeight cfg \<le> grid_cellSize cfg * 2 ^ 51 \<longrightarrow>
      (\<exists>xs ys. drawGrid cfg = Some (map (vertical_line cfg) xs @ map (horizontal_line cfg) ys)
         \<and> length xs \<le> nat \<lceil>2 * scaledWidth cfg / grid_cellSize cfg\<rceil>
         \<and> length ys \<le> nat \<lceil>2 * scaledHeight cfg / grid_cellSize cfg\<rceil>)
      \<and> (\<forall>x. 0 \<le> x \<and> (x < scaledWidth cfg \<or> x < scaledHeight cfg) \<longrightarrow>
             x + grid_cellSize cfg / 2 \<le> fadd x (grid_cellSize cfg)))
   \<and> (grid_cellSize cfg \<le> 0 \<and> (0 < scaledWidth cfg \<or> 0 < scaledHeight cfg) \<longrightarrow>
        drawGrid cfg = None)
   \<and> (0 < width (canvas_rect cfg) \<and> is_double (width (canvas_rect cfg)) \<longrightarrow>
        0 < scaledWidth cfg)
   \<and> (0 < height (canvas_rect cfg) \<and> is_double (height (canvas_rect cfg)) \<longrightarrow>
        0 < scaledHeight cfg)"
proof (intro conjI impI allI)
  fix x
  assume c: "0 < grid_cellSize cfg \<and> is_double (grid_cellSize cfg)
      \<and> scaledWidth cfg \<le> grid_cellSize cfg * 2 ^ 51
      \<and> scaledHeight cfg \<le> grid_cellSize cfg * 2 ^ 51"
    and x: "0 \<le> x \<and> (x < scaledWidth cfg \<or> x < scaledHeight cfg)"
  from x consider "x < scaledWidth cfg" | "x < scaledHeight cfg" by blast
  then show "x + grid_cellSize cfg / 2 \<le> fadd x (grid_cellSize cfg)"
  proof cases
    case 1
    with c x show ?thesis by (intro fadd_progress [where bound = "scaledWidth cfg"]) simp_all
  next
    case 2
    with c x show ?thesis by (intro fadd_progress [where bound = "scaledHeight cfg"]) simp_all
  qed
next
  assume "0 < grid_cellSize cfg \<and> is_double (grid_cellSize cfg)
      \<and> scaledWidth cfg \<le> grid_cellSize cfg * 2 ^ 51
      \<and> scaledHeight cfg \<le> grid_cellSize cfg * 2 ^ 51"
  then show "\<exists>xs ys. drawGrid cfg = Some (map (vertical_line cfg) xs @ map (horizontal_line cfg) ys)
         \<and> length xs \<le> nat \<lceil>2 * scaledWidth cfg / grid_cellSize cfg\<rceil>
         \<and> length ys \<le> nat \<lceil>2 * scaledHeight cfg / grid_cellSize cfg\<rceil>"
    by (intro drawGrid_returns) simp_all
next
  assume "grid_cellSize cfg \<le> 0 \<and> (0 < scaledWidth cfg \<or> 0 < scaledHeight cfg)"
  then show "drawGrid cfg = None" by (intro drawGrid_diverges) simp_all
next
  assume "0 < width (canvas_rect cfg) \<and> is_double (width (canvas_rect cfg))"
  then show "0 < scaledWidth cfg"
    unfolding scaledWidth_def by (intro fmul_pos canvas_scaling_ge_2) simp_all
next
  assume "0 < height (canvas_rect cfg) \<and> is_double (height (canvas_rect cfg))"
  then show "0 < scaledHeight cfg"
    unfolding scaledHeight_def by (intro fmul_pos canvas_scaling_ge_2) simp_all
qed

theorem drawGrid_termination_witness:
  "0 < grid_cellSize (demo [] None 40) \<and> is_double (grid_cellSize (demo [] None 40))
   \<and> scaledWidth (demo [] None 40) \<le> grid_cellSize (demo [] None 40) * 2 ^ 51
   \<and> scaledHeight (demo [] None 40) \<le> grid_cellSize (demo [] None 40) * 2 ^ 51
   \<and> (\<exists>xs ys. drawGrid (demo [] None 40)
                 = Some (map (vertical_line (demo [] None 40)) xs
                         @ map (horizontal_line (demo [] None 40)) ys)
         \<and> length xs \<le> 70 \<and> length ys \<le> 70)
   \<and> (0::real) + grid_cellSize (demo [] None 40) / 2
        \<le> fadd 0 (grid_cellSize (demo [] None 40))
   \<and> grid_cellSize (demo [] None 0) \<le> 0
   \<and> 0 < width (canvas_rect (demo [] None 0))
   \<and> is_double (width (canvas_rect (demo [] None 0)))
   \<and> 0 < scaledWidth (demo [] None 0)
   \<and> drawGrid (demo [] None 0) = None"
proof -
  let ?c = "demo [] None 40" and ?z = "demo [] None 0"
  have h: "0 < grid_cellSize ?c \<and> is_double (grid_cellSize ?c)
           \<and> scaledWidth ?c \<le> grid_cellSize ?c * 2 ^ 51
           \<and> scaledHeight ?c \<le> grid_cellSize ?c * 2 ^ 51"
    by (simp add: demo_simps demo_scaled is_double_40)
  note pos = drawGrid_termination [of ?c, THEN conjunct1, THEN mp, OF h]
  from pos [THEN conjunct1]
  have ret: "\<exists>xs ys. drawGrid ?c = Some (map (vertical_line ?c) xs @ map (horizontal_line ?c) ys)
               \<and> length xs \<le> 70 \<and> length ys \<le> 70"
    by (simp add: demo_simps demo_scaled)
  from pos [THEN conjunct2, THEN spec, of 0]
  have step: "(0::real) + grid_cellSize ?c / 2 \<le> fadd 0 (grid_cellSize ?c)"
    by (simp add: demo_scaled)
  have hz: "grid_cellSize ?z \<le> 0 \<and> (0 < scaledWidth ?z \<or> 0 < scaledHeight ?z)"
    by (simp add: demo_simps demo_scaled)
  have hw: "0 < width (canvas_rect ?z) \<and> is_double (width (canvas_rect ?z))"
    by (simp add: demo_simps is_double_700)
  note none = drawGrid_termination [of ?z, THEN conjunct2, THEN conjunct1, THEN mp, OF hz]
  note wpos = drawGrid_termination [of ?z, THEN conjunct2, THEN conjunct2, THEN conjunct1,
      THEN mp, OF hw]
  from h ret step hz hw none wpos show ?thesis by blast
qed

text \<open>
  Positivity of the cell size is not enough. With the cell size \<open>2 powi (-44)\<close>, a
  binary64 number, on the canvas of 700 by 700, the loop variable reaches 512 after
  \<open>2 ^ 53\<close> exact additions; from there \<open>x += cellSize\<close> rounds back to 512, which is
  below the bound 1400, and \<open>drawGrid\<close> never returns.
\<close>

theorem drawGrid_termination_counterexample:
  "0 < grid_cellSize (demo [] None (2 powi (- 44)))
   \<and> is_double (grid_cellSize (demo [] None (2 powi (- 44))))
   \<and> canvas_rect (demo [] None (2 powi (- 44))) = \<lparr>width = 700, height = 700\<rparr>
   \<and> drawGrid (demo [] None (2 powi (- 44))) = None"
proof -
  have "drawGrid (demo [] None (2 powi (- 44))) = None"
    by (rule drawGrid_stalls) (simp_all add: demo_simps demo_scaled)
  moreover have "is_double (grid_cellSize (demo [] None (2 powi (- 44))))"
    by (simp only: demo_simps is_double_tiny)
  moreover have "0 < grid_cellSize (demo [] None (2 powi (- 44)))"
    by (simp only: demo_simps) simp
  moreover have "canvas_rect (demo [] None (2 powi (- 44))) = \<lparr>width = 700, height = 700\<rparr>"
    by (simp only: demo_simps)
  ultimately show ?thesis by blast
qed

section \<open>The render pass\<close>

lemma draw_objects_eq:
  "draw_objects ds =
     (map DrawCall (takeWhile has_draw ds),
      if list_all has_draw ds then None else Some NoDrawFunction)"
  by (induction ds) simp_all

lemma takeWhile_first_missing:
  assumes "\<not> list_all P ds"
  shows "\<exists>pre d post. ds = pre @ d # post \<and> list_all P pre \<and> \<not> P d \<and> takeWhile P ds = pre"
proof -
  from assms obtain d where "d \<in> set ds" "\<not> P d" by (auto simp: list_all_iff)
  then have "ds = takeWhile P ds @ hd (dropWhile P ds) # tl (dropWhile P ds)"
    by (metis dropWhile_eq_Nil_conv hd_Cons_tl takeWhile_dropWhile_id)
  moreover have "\<not> P (hd (dropWhile P ds))"
    using \<open>d \<in> set ds\<close> \<open>\<not> P d\<close> by (metis dropWhile_eq_Nil_conv hd_dropWhile)
  moreover have "list_all P (takeWhile P ds)"
    by (auto simp: list_all_iff dest: set_takeWhileD)
  ultimately show ?thesis by blast
qed

lemma grid_phase_lines:
  assumes "grid_phase cfg = Some grid"
  shows "\<exists>xs ys. grid = map (vertical_line cfg) xs @ map (horizontal_line cfg) ys"
proof (cases "grid_enabled cfg")
  case True
  with assms have "drawGrid cfg = Some grid" by (simp add: grid_phase_def)
  then show ?thesis by (rule drawGrid_lines)
next
  case False
  with assms have "grid = map (vertical_line cfg) [] @ map (horizontal_line cfg) []"
    by (simp add: grid_phase_def)
  then show ?thesis by blast
qed

lemma grid_phase_returns:
  assumes "0 < grid_cellSize cfg" and "is_double (grid_cellSize cfg)"
    and "scaledWidth cfg \<le> grid_cellSize cfg * 2 ^ 51"
    and "scaledHeight cfg \<le> grid_cellSize cfg * 2 ^ 51"
  shows "grid_phase cfg \<noteq> None"
  using drawGrid_returns [OF assms] by (auto simp: grid_phase_def)

lemma draw_after_grid:
  assumes "grid_phase cfg = Some grid" and "drawables cfg = Some ds"
  shows "draw cfg st =
           Some (ClearRect 0 0 (real_of_int (canvas_width st) + 50)
                               (real_of_int (canvas_height st) + 50)
                 # grid @ map DrawCall (takeWhile has_draw ds),
                 if list_all has_draw ds then None else Some NoDrawFunction)"
  by (simp add: draw_def Let_def assms draw_objects_eq)

lemma grid_phase_demo_40: "grid_phase (demo ds z 40) = Some grid_40"
  using drawGrid_40 [of "demo ds z 40"] by (simp add: grid_phase_def demo_simps demo_scaled)

lemma mount_demo:
  "fst (mount (demo ds z c)) =
     \<lparr>transform = \<lparr>ta = 2, tb = 0, tc = 0, td = 2, te = 0, tf = 0\<rparr>,
      canvas_width = 1400, canvas_height = 1400,
      draggingObject = None, dragStart = None, cursor = ''auto''\<rparr>"
  by (simp add: mount_def Let_def scaleCanvas_def fresh_canvas_def demo_simps
        ctx_scale_def identity_matrix_def enforceBounds_def fmul_def round_double_1400)

text \<open>
  Claim C8, as amended. A render pass returns or throws exactly when its grid phase
  returns. When it does, the pass over a list of drawables has cleared the surface, drawn
  the lines of the grid and called \<open>draw\<close> on the drawables in list order up to the first
  one that has no \<open>draw\<close> function, at which it throws: the error propagates out of
  \<open>draw\<close> and nothing is drawn after it. When every drawable has a \<open>draw\<close> function, each
  one is drawn, in list order, and nothing is thrown. The grid phase returns when the grid
  is not drawn, when neither scaled side of the canvas is positive, and when the cell size
  is positive and each scaled side is at most \<open>2 ^ 51\<close> cells.
\<close>

theorem draw_missing_capability:
  assumes "drawables cfg = Some ds"
  shows "(grid_phase cfg = None \<longrightarrow> draw cfg st = None)
       \<and> (\<forall>grid. grid_phase cfg = Some grid \<longrightarrow>
            draw cfg st =
              Some (ClearRect 0 0 (real_of_int (canvas_width st) + 50)
                                  (real_of_int (canvas_height st) + 50)
                    # grid @ map DrawCall (takeWhile has_draw ds),
                    if list_all has_draw ds then None else Some NoDrawFunction)
            \<and> (\<exists>xs ys. grid = map (vertical_line cfg) xs @ map (horizontal_line cfg) ys))
       \<and> (list_all has_draw ds \<longrightarrow> takeWhile has_draw ds = ds)
       \<and> (\<not> list_all has_draw ds \<longrightarrow>
            (\<exists>pre d post. ds = pre @ d # post \<and> list_all has_draw pre \<and> \<not> has_draw d
               \<and> takeWhile has_draw ds = pre))
       \<and> (\<not> grid_enabled cfg \<longrightarrow> grid_phase cfg = Some [])
       \<and> (scaledWidth cfg \<le> 0 \<and> scaledHeight cfg \<le> 0 \<longrightarrow> grid_phase cfg = Some [])
       \<and> (0 < grid_cellSize cfg \<and> is_double (grid_cellSize cfg)
            \<and> scaledWidth cfg \<le> grid_cellSize cfg * 2 ^ 51
            \<and> scaledHeight cfg \<le> grid_cellSize cfg * 2 ^ 51 \<longrightarrow>
          grid_phase cfg \<noteq> None)"
proof (intro conjI allI impI)
  show "draw cfg st = None" if "grid_phase cfg = None"
    using that by (simp add: draw_def)
  show "draw cfg st =
              Some (ClearRect 0 0 (real_of_int (canvas_width st) + 50)
                                  (real_of_int (canvas_height st) + 50)
                    # grid @ map DrawCall (takeWhile has_draw ds),
                    if list_all has_draw ds then None else Some NoDrawFunction)"
    if "grid_phase cfg = Some grid" for grid
    using that assms by (rule draw_after_grid)
  show "\<exists>xs ys. grid = map (vertical_line cfg) xs @ map (horizontal_line cfg) ys"
    if "grid_phase cfg = Some grid" for grid
    using that by (rule grid_phase_lines)
  show "takeWhile has_draw ds = ds" if "list_all has_draw ds"
    using that by (simp add: list_all_iff)
  show "\<exists>pre d post. ds = pre @ d # post \<and> list_all has_draw pre \<and> \<not> has_draw d
               \<and> takeWhile has_draw ds = pre" if "\<not> list_all has_draw ds"
    using that by (rule takeWhile_first_missing)
  show "grid_phase cfg = Some []" if "\<not> grid_enabled cfg"
    using that by (simp add: grid_phase_def)
  show "grid_phase cfg = Some []" if "scaledWidth cfg \<le> 0 \<and> scaledHeight cfg \<le> 0"
    using that drawGrid_empty [of cfg] by (simp add: grid_phase_def)
  show "grid_phase cfg \<noteq> None"
    if "0 < grid_cellSize cfg \<and> is_double (grid_cellSize cfg)
            \<and> scaledWidth cfg \<le> grid_cellSize cfg * 2 ^ 51
            \<and> scaledHeight cfg \<le> grid_cellSize cfg * 2 ^ 51"
    using that by (intro grid_phase_returns) simp_all
qed

theorem draw_missing_capability_witness:
  "drawables (demo [box ''a'' True 100, no_draw, box ''b'' True 100] None 40)
       = Some [box ''a'' True 100, no_draw, box ''b'' True 100]
   \<and> grid_phase (demo [box ''a'' True 100, no_draw, box ''b'' True 100] None 40) = Some grid_40
   \<and> draw (demo [box ''a'' True 100, no_draw, box ''b'' True 100] None 40)
        (fst (mount (demo [box ''a'' True 100, no_draw, box ''b'' True 100] None 40)))
       = Some (ClearRect 0 0 1450 1450 # grid_40 @ [DrawCall (box ''a'' True 100)],
               Some NoDrawFunction)"
proof -
  let ?ds = "[box ''a'' True 100, no_draw, box ''b'' True 100]"
  let ?cfg = "demo ?ds None 40"
  have d: "drawables ?cfg = Some ?ds" by (simp add: demo_simps)
  have g: "grid_phase ?cfg = Some grid_40" by (rule grid_phase_demo_40)
  from draw_missing_capability [OF d, of "fst (mount ?cfg)", THEN conjunct2, THEN conjunct1,
        rule_format, OF g]
  have "draw ?cfg (fst (mount ?cfg)) =
          Some (ClearRect 0 0 (real_of_int (canvas_width (fst (mount ?cfg))) + 50)
                              (real_of_int (canvas_height (fst (mount ?cfg))) + 50)
                # grid_40 @ map DrawCall (takeWhile has_draw ?ds),
                if list_all has_draw ?ds then None else Some NoDrawFunction)"
    by simp
  then have "draw ?cfg (fst (mount ?cfg)) =
          Some (ClearRect 0 0 1450 1450 # grid_40 @ [DrawCall (box ''a'' True 100)],
                Some NoDrawFunction)"
    by (simp add: mount_demo box_def no_draw_def)
  with d g show ?thesis by simp
qed

text \<open>
  The claim without the condition on the grid phase fails: with the grid enabled and a
  cell size of zero on the canvas of 700 by 700, the render pass of a list with a drawable
  that has no \<open>draw\<close> function never returns, so it throws nothing.
\<close>

theorem draw_missing_capability_counterexample:
  "drawables (demo [no_draw] None 0) = Some [no_draw] \<and> \<not> has_draw no_draw
   \<and> draw (demo [no_draw] None 0) (fst (mount (demo [no_draw] None 0))) = None"
proof -
  have "drawGrid (demo [no_draw] None 0) = None"
    by (rule drawGrid_diverges) (simp_all add: demo_simps demo_scaled)
  then show ?thesis
    by (simp add: draw_def grid_phase_def demo_simps no_draw_def)
qed

section \<open>Counting the grid lines\<close>

lemma filter_map_all: "(\<And>x. P (f x)) \<Longrightarrow> filter P (map f xs) = map f xs"
  by (induction xs) simp_all

lemma filter_map_none: "(\<And>x. \<not> P (f x)) \<Longrightarrow> filter P (map f xs) = []"
  by (induction xs) simp_all

lemma grid_40_counts:
  "length (filter is_vertical grid_40) = 35" "length (filter is_horizontal grid_40) = 35"
proof -
  have v: "filter is_vertical (map (\<lambda>k. Line (40 * real k, 0) (40 * real k, 1400) 1 ''#e6e6e6'') ks)
             = map (\<lambda>k. Line (40 * real k, 0) (40 * real k, 1400) 1 ''#e6e6e6'') ks" for ks
    by (rule filter_map_all) simp
  have v': "filter is_vertical (map (\<lambda>k. Line (0, 40 * real k) (1400, 40 * real k) 1 ''#e6e6e6'') ks)
             = []" for ks
    by (rule filter_map_none) simp
  have h: "filter is_horizontal (map (\<lambda>k. Line (0, 40 * real k) (1400, 40 * real k) 1 ''#e6e6e6'') ks)
             = map (\<lambda>k. Line (0, 40 * real k) (1400, 40 * real k) 1 ''#e6e6e6'') ks" for ks
    by (rule filter_map_all) simp
  have h': "filter is_horizontal (map (\<lambda>k. Line (40 * real k, 0) (40 * real k, 1400) 1 ''#e6e6e6'') ks)
             = []" for ks
    by (rule filter_map_none) simp
  show "length (filter is_vertical grid_40) = 35" by (simp add: grid_40_def v v')
  show "length (filter is_horizontal grid_40) = 35" by (simp add: grid_40_def h h')
qed

lemma draw_grid_40:
  assumes "grid_phase cfg = Some grid_40"
  shows "\<exists>objs err. draw cfg st =
           Some (ClearRect 0 0 (real_of_int (canvas_width st) + 50)
                               (real_of_int (canvas_height st) + 50)
                 # grid_40 @ map DrawCall objs, err)"
proof (cases "drawables cfg")
  case None
  then have "draw cfg st =
           Some (ClearRect 0 0 (real_of_int (canvas_width st) + 50)
                               (real_of_int (canvas_height st) + 50)
                 # grid_40 @ map DrawCall [], None)"
    by (simp add: draw_def assms)
  then show ?thesis by blast
next
  case (Some ds)
  from draw_after_grid [OF assms Some] show ?thesis by blast
qed

lemma line_counts_grid_40:
  assumes "draw cfg st = Some (op # grid_40 @ map DrawCall objs, err)"
    and "\<not> is_vertical op" and "\<not> is_horizontal op"
  shows "line_counts (draw cfg st) = Some (35, 35)"
proof -
  have v: "filter is_vertical (map DrawCall objs) = []" by (rule filter_map_none) simp
  have h: "filter is_horizontal (map DrawCall objs) = []" by (rule filter_map_none) simp
  show ?thesis using assms(2,3) by (simp add: assms(1) line_counts_def v h grid_40_counts)
qed

text \<open>
  Claim C9, as amended. With \<open>gridOptions = {draw: true, cellSize: 40}\<close>, a bounding
  rectangle of 700 by 700 and density factor 2, so that the backing store is 1400 by
  1400, a render pass draws, right after clearing the surface and before any drawable,
  exactly \<open>\<lceil>1400 / 40\<rceil> = 35\<close> vertical line segments, at \<open>x = 0, 40, ..., 1360\<close> from
  \<open>y = 0\<close> to \<open>y = 1400\<close>, and 35 horizontal ones, at \<open>y = 0, 40, ..., 1360\<close> from \<open>x = 0\<close>
  to \<open>x = 1400\<close>, whatever the drawables are: the loop condition \<open>x < scaledWidth\<close>
  excludes 1400.
\<close>

theorem grid_line_count:
  assumes "canvas_rect cfg = \<lparr>width = 700, height = 700\<rparr>"
    and "canvas_scaling cfg = 2"
    and "gridOptions cfg =
           Some \<lparr>go_draw = True, go_cellSize = Some 40, go_lineWidth = None,
                 go_lineColor = None\<rparr>"
  shows "(\<exists>objs err. draw cfg st =
            Some (ClearRect 0 0 (real_of_int (canvas_width st) + 50)
                                (real_of_int (canvas_height st) + 50)
                  # grid_40 @ map DrawCall objs, err))
       \<and> line_counts (draw cfg st) = Some (35, 35)
       \<and> nat \<lceil>1400 / 40 :: real\<rceil> = 35
       \<and> canvas_width (scaleCanvas cfg st) = 1400
       \<and> canvas_height (scaleCanvas cfg st) = 1400"
proof -
  have w: "scaledWidth cfg = 1400" and h: "scaledHeight cfg = 1400"
    using assms(1,2) by (simp_all add: scaledWidth_def scaledHeight_def fmul_def round_double_1400)
  have "drawGrid cfg = Some grid_40"
    using w h assms(3)
    by (intro drawGrid_40) (simp_all add: grid_cellSize_def grid_lineWidth_def grid_lineColor_def)
  then have g: "grid_phase cfg = Some grid_40"
    using assms(3) by (simp add: grid_phase_def grid_enabled_def)
  from draw_grid_40 [OF g, of st] obtain objs err
    where d: "draw cfg st =
            Some (ClearRect 0 0 (real_of_int (canvas_width st) + 50)
                                (real_of_int (canvas_height st) + 50)
                  # grid_40 @ map DrawCall objs, err)" by blast
  have "line_counts (draw cfg st) = Some (35, 35)"
    by (rule line_counts_grid_40 [OF d]) simp_all
  moreover have "canvas_width (scaleCanvas cfg st) = 1400"
    and "canvas_height (scaleCanvas cfg st) = 1400"
    using assms(1,2) by (simp_all add: scaleCanvas_def fmul_def round_double_1400)
  moreover have "nat \<lceil>1400 / 40 :: real\<rceil> = 35" by simp
  ultimately show ?thesis using d by blast
qed

theorem grid_line_count_witness:
  "canvas_rect (demo [] None 40) = \<lparr>width = 700, height = 700\<rparr>
   \<and> canvas_scaling (demo [] None 40) = 2
   \<and> gridOptions (demo [] None 40) =
       Some \<lparr>go_draw = True, go_cellSize = Some 40, go_lineWidth = None, go_lineColor = None\<rparr>
   \<and> draw (demo [] None 40) (fst (mount (demo [] None 40)))
       = Some (ClearRect 0 0 1450 1450 # grid_40, None)
   \<and> line_counts (draw (demo [] None 40) (fst (mount (demo [] None 40)))) = Some (35, 35)"
proof -
  let ?cfg = "demo [] None 40"
  have r: "canvas_rect ?cfg = \<lparr>width = 700, height = 700\<rparr>" and s: "canvas_scaling ?cfg = 2"
    by (simp_all add: demo_simps)
  have g: "gridOptions ?cfg =
       Some \<lparr>go_draw = True, go_cellSize = Some 40, go_lineWidth = None, go_lineColor = None\<rparr>"
    by (simp add: demo_def demo_grid_def)
  note t = grid_line_count [OF r s g, of "fst (mount ?cfg)"]
  have "draw ?cfg (fst (mount ?cfg)) = Some (ClearRect 0 0 1450 1450 # grid_40, None)"
    using t by (auto simp: draw_def grid_phase_demo_40 demo_simps mount_demo)
  with r s g t show ?thesis by simp
qed

text \<open>The count is not \<open>\<lceil>1400 / 40\<rceil> + 1 = 36\<close>.\<close>

theorem grid_line_count_counterexample:
  "line_counts (draw (demo [] None 40) (fst (mount (demo [] None 40))))
     \<noteq> Some (nat \<lceil>1400 / 40 :: real\<rceil> + 1, nat \<lceil>1400 / 40 :: real\<rceil> + 1)"
proof -
  have "draw (demo [] None 40) (fst (mount (demo [] None 40)))
          = Some (ClearRect 0 0 1450 1450 # grid_40 @ map DrawCall [], None)"
    by (simp add: draw_def grid_phase_demo_40 demo_simps mount_demo)
  then have "line_counts (draw (demo [] None 40) (fst (mount (demo [] None 40)))) = Some (35, 35)"
    by (rule line_counts_grid_40) simp_all
  then show ?thesis by simp
qed

section \<open>Hit testing\<close>

text \<open>
  Claim C7. \<open>getObjectAt\<close> returns nothing when \<open>drawables\<close> is not an array or when no
  drawable of the list touches the point, and otherwise the first drawable, in list order,
  that touches it, where a drawable touches a point when its \<open>touches\<close> is a function that
  returns true there (a drawable without a \<open>touches\<close> function touches nothing). Of two
  drawables at the head of the list that both touch the point, the first is returned.
\<close>

theorem getObjectAt_first_hit:
  "(drawables cfg = None \<longrightarrow> getObjectAt cfg pt = None)
   \<and> (\<forall>ds. drawables cfg = Some ds \<longrightarrow>
         (getObjectAt cfg pt = None \<longleftrightarrow> (\<forall>d \<in> set ds. \<not> touches_at pt d))
       \<and> (\<forall>d. getObjectAt cfg pt = Some d \<longleftrightarrow>
               (\<exists>i < length ds. ds ! i = d \<and> touches_at pt d
                  \<and> (\<forall>j < i. \<not> touches_at pt (ds ! j)))))
   \<and> (\<forall>d. touches_at pt d \<longleftrightarrow> (\<exists>t. touches d = Some t \<and> t (fst pt) (snd pt)))
   \<and> (\<forall>d1 d2 rest. drawables cfg = Some (d1 # d2 # rest) \<and> touches_at pt d1 \<and> touches_at pt d2
         \<longrightarrow> getObjectAt cfg pt = Some d1)"
proof (intro conjI allI impI)
  show "getObjectAt cfg pt = None" if "drawables cfg = None"
    using that by (simp add: getObjectAt_def)
  show "getObjectAt cfg pt = None \<longleftrightarrow> (\<forall>d \<in> set ds. \<not> touches_at pt d)"
    if "drawables cfg = Some ds" for ds
    using that by (auto simp: getObjectAt_def find_None_iff)
  show "getObjectAt cfg pt = Some d \<longleftrightarrow>
          (\<exists>i < length ds. ds ! i = d \<and> touches_at pt d \<and> (\<forall>j < i. \<not> touches_at pt (ds ! j)))"
    if "drawables cfg = Some ds" for ds d
    using that by (auto simp: getObjectAt_def find_Some_iff)
  show "touches_at pt d \<longleftrightarrow> (\<exists>t. touches d = Some t \<and> t (fst pt) (snd pt))" for d
    by (simp add: touches_at_def split: option.split)
  show "getObjectAt cfg pt = Some d1"
    if "drawables cfg = Some (d1 # d2 # rest) \<and> touches_at pt d1 \<and> touches_at pt d2"
    for d1 d2 rest
    using that by (simp add: getObjectAt_def)
qed

theorem getObjectAt_first_hit_witness:
  "drawables (demo [no_draw, box ''a'' False 100, box ''b'' True 200] None 40)
     = Some [no_draw, box ''a'' False 100, box ''b'' True 200]
   \<and> touches_at (50, 50) (box ''a'' False 100) \<and> touches_at (50, 50) (box ''b'' True 200)
   \<and> \<not> touches_at (50, 50) no_draw
   \<and> getObjectAt (demo [no_draw, box ''a'' False 100, box ''b'' True 200] None 40) (50, 50)
       = Some (box ''a'' False 100)
   \<and> getObjectAt (demo [no_draw, box ''a'' False 100, box ''b'' True 200] None 40) (500, 500)
       = None"
proof -
  let ?ds = "[no_draw, box ''a'' False 100, box ''b'' True 200]"
  let ?cfg = "demo ?ds None 40"
  note hit = getObjectAt_first_hit [of ?cfg "(50, 50)"]
  note miss = getObjectAt_first_hit [of ?cfg "(500, 500)"]
  have d: "drawables ?cfg = Some ?ds" by (simp add: demo_simps)
  have t: "touches_at (50, 50) (box ''a'' False 100)" "touches_at (50, 50) (box ''b'' True 200)"
    "\<not> touches_at (50, 50) no_draw"
    by (simp_all add: touches_at_def box_def no_draw_def)
  have "\<exists>i < length ?ds. ?ds ! i = box ''a'' False 100 \<and> touches_at (50, 50) (box ''a'' False 100)
          \<and> (\<forall>j < i. \<not> touches_at (50, 50) (?ds ! j))"
    using t by (intro exI [of _ 1]) simp
  with hit d have a: "getObjectAt ?cfg (50, 50) = Some (box ''a'' False 100)" by blast
  have "\<forall>d \<in> set ?ds. \<not> touches_at (500, 500) d"
    by (simp add: touches_at_def box_def no_draw_def)
  with miss d have b: "getObjectAt ?cfg (500, 500) = None" by blast
  from d t a b show ?thesis by simp
qed

section \<open>The matrices of the viewport\<close>

text \<open>
  Mounting produces a viewport matrix and every handler keeps the matrix one: the scale is
  uniform and at least 1 and there is no skew in every state the component reaches.
\<close>

lemma zoom_composition_fields:
  "ta (ctx_translate (ctx_scale (ctx_translate t x y) z z) x' y') = ta t * z"
  "tb (ctx_translate (ctx_scale (ctx_translate t x y) z z) x' y') = tb t * z"
  "tc (ctx_translate (ctx_scale (ctx_translate t x y) z z) x' y') = tc t * z"
  "td (ctx_translate (ctx_scale (ctx_translate t x y) z z) x' y') = td t * z"
  by (simp_all add: ctx_translate_def ctx_scale_def)

lemma ctx_translate_fields:
  "ta (ctx_translate t x y) = ta t" "tb (ctx_translate t x y) = tb t"
  "tc (ctx_translate t x y) = tc t" "td (ctx_translate t x y) = td t"
  by (simp_all add: ctx_translate_def)

lemma enforceBounds_viewport:
  assumes "ta t = td t" and "tb t = 0" and "tc t = 0"
  shows "viewport_matrix (enforceBounds s r t)"
  using assms by (simp add: viewport_matrix_def enforceBounds_fields)

lemma mount_viewport: "viewport_matrix (transform (fst (mount cfg)))"
  by (simp add: mount_def Let_def scaleCanvas_def)
     (rule enforceBounds_viewport, simp_all add: ctx_scale_def identity_matrix_def)

lemma zoom_viewport:
  assumes "viewport_matrix t"
  shows "viewport_matrix
           (enforceBounds s r (ctx_translate (ctx_scale (ctx_translate t x y) z z) x' y'))"
  using assms
  by (intro enforceBounds_viewport) (simp_all add: zoom_composition_fields viewport_matrix_def)

lemma pan_viewport:
  assumes "viewport_matrix t"
  shows "viewport_matrix (enforceBounds s r (ctx_translate t x y))"
  using assms
  by (intro enforceBounds_viewport) (simp_all add: ctx_translate_fields viewport_matrix_def)

lemma mousewheel_viewport:
  assumes "viewport_matrix (transform st)"
  shows "viewport_matrix (transform (fst (mousewheel cfg st ev)))"
  using assms by (simp add: mousewheel_def Let_def zoom_viewport)

lemma mousemove_viewport:
  assumes "viewport_matrix (transform st)"
  shows "viewport_matrix (transform (fst (mousemove cfg st ev)))"
  using assms by (simp add: mousemove_def Let_def pan_viewport split: option.split)

lemma other_handlers_keep_transform:
  "transform (fst (click cfg st ev)) = transform st"
  "transform (fst (mousedown cfg st ev)) = transform st"
  "transform (fst (mouseup cfg st ev)) = transform st"
  "transform (fst (contextmenu cfg st ev)) = transform st"
  by (simp_all add: click_def mousedown_def mouseup_def contextmenu_def Let_def
        split: option.split)

lemma reachable_viewport:
  assumes "reachable cfg st"
  shows "viewport_matrix (transform st)"
  using assms
proof (induction rule: reachable.induct)
  case mounted
  show ?case by (rule mount_viewport)
next
  case (wheeled st ev)
  then show ?case by (simp add: mousewheel_viewport)
next
  case (moved st ev)
  then show ?case by (simp add: mousemove_viewport)
qed (simp_all add: other_handlers_keep_transform)

section \<open>The wheel handler\<close>

lemma mousewheel_zoom_out:
  assumes "0 \<le> deltaY ev"
  shows "transform (fst (mousewheel cfg st ev)) =
           enforceBounds (canvas_scaling cfg) (canvas_rect cfg)
             (ctx_translate
                (ctx_scale
                   (ctx_translate (transform st)
                      (fst (getTransformedPoint (canvas_scaling cfg) (transform st)
                              (offsetX ev) (offsetY ev)))
                      (snd (getTransformedPoint (canvas_scaling cfg) (transform st)
                              (offsetX ev) (offsetY ev))))
                   0.98 0.98)
                (- fst (getTransformedPoint (canvas_scaling cfg) (transform st)
                          (offsetX ev) (offsetY ev)))
                (- snd (getTransformedPoint (canvas_scaling cfg) (transform st)
                          (offsetX ev) (offsetY ev))))"
  using assms by (simp add: mousewheel_def Let_def)

lemma mousewheel_zoom_out_scale:
  assumes "0 \<le> deltaY ev"
  shows "ta (transform (fst (mousewheel cfg st ev))) = max 1 (ta (transform st) * 0.98)"
  by (simp add: mousewheel_zoom_out [OF assms] enforceBounds_ta zoom_composition_fields)

lemma zoom_outs_Suc:
  "zoom_outs cfg (Suc n) = fst (mousewheel cfg (zoom_outs cfg n) (wheel 350 350 1))"
  by (simp add: zoom_outs_def)

lemma zoom_outs_viewport: "viewport_matrix (transform (zoom_outs cfg n))"
proof (induction n)
  case 0
  show ?case by (simp add: zoom_outs_def mount_viewport)
next
  case (Suc n)
  then show ?case by (simp add: zoom_outs_Suc mousewheel_viewport)
qed

lemma zoom_outs_scale:
  "ta (transform (zoom_outs (demo ds z c) n)) = max 1 (2 * 0.98 ^ n)"
proof (induction n)
  case 0
  show ?case
    by (simp add: zoom_outs_def mount_def Let_def scaleCanvas_def enforceBounds_ta
          ctx_scale_def identity_matrix_def demo_simps)
next
  case (Suc n)
  have le: "(2::real) * 0.98 ^ n * 0.98 \<le> 2 * 0.98 ^ n" by simp
  have "ta (transform (zoom_outs (demo ds z c) (Suc n))) = max 1 (max 1 (2 * 0.98 ^ n) * 0.98)"
    by (simp add: zoom_outs_Suc mousewheel_zoom_out_scale wheel_def Suc.IH)
  also have "\<dots> = max 1 (2 * 0.98 ^ Suc n)"
    using le by (simp add: max_def)
  finally show ?case .
qed

lemma clamp_translation_zero: "clamp_translation 0 v = 0"
  by (simp add: clamp_translation_def Let_def)

lemma fully_zoomed_out: "transform (zoom_outs (demo ds z c) 35) = identity_matrix"
proof -
  let ?cfg = "demo ds z c"
  let ?t = "transform (zoom_outs ?cfg 35)"
  have v: "viewport_matrix ?t" by (rule zoom_outs_viewport)
  have "(2::real) * 0.98 ^ 35 \<le> 1" by (simp add: power_divide)
  then have a: "ta ?t = 1" by (simp add: zoom_outs_scale max_def)
  with v have d: "td ?t = 1" and b: "tb ?t = 0" and c: "tc ?t = 0"
    by (simp_all add: viewport_matrix_def)
  have s: "zoom_outs ?cfg 35 = fst (mousewheel ?cfg (zoom_outs ?cfg 34) (wheel 350 350 1))"
    using zoom_outs_Suc [of ?cfg 34] by simp
  have w: "0 \<le> deltaY (wheel 350 350 1)" by (simp add: wheel_def)
  have a': "max 1 (ta (transform (zoom_outs ?cfg 34)) * 0.98) = 1"
    using a mousewheel_zoom_out_scale [OF w, of ?cfg "zoom_outs ?cfg 34"] s by simp
  have v34: "viewport_matrix (transform (zoom_outs ?cfg 34))" by (rule zoom_outs_viewport)
  then have d': "max 1 (td (transform (zoom_outs ?cfg 34)) * 0.98) = 1"
    using a' by (simp add: viewport_matrix_def)
  have e: "te ?t = 0" and f: "tf ?t = 0"
    using a' d'
    by (simp_all add: s mousewheel_zoom_out [OF w] enforceBounds_te enforceBounds_tf
          zoom_composition_fields demo_simps clamp_translation_zero)
  show ?thesis
    by (rule dom_matrix.equality) (simp_all add: a b c d e f identity_matrix_def)
qed

text \<open>
  Claim C5, as amended. A wheel event with \<open>deltaY < 0\<close> that arrives while the horizontal
  scale exceeds \<open>maxScaleValue\<close> (5 when \<open>maxZoom\<close> is absent, \<open>maxZoom\<close> when it is 5) changes
  nothing and draws nothing. A wheel event with \<open>deltaY \<ge> 0\<close> is never blocked: it composes
  the zoom with factor 0.98, enforces the bounds and redraws; the scale becomes
  \<open>max 1 (0.98 * scale)\<close>, which is below the scale before whenever that scale is above 1.
\<close>

theorem max_zoom_soft_cap:
  "(deltaY ev < 0 \<and> maxScaleValue cfg < ta (transform st) \<longrightarrow> mousewheel cfg st ev = (st, []))
   \<and> (0 \<le> deltaY ev \<longrightarrow>
        mousewheel cfg st ev =
          (st\<lparr>transform :=
                enforceBounds (canvas_scaling cfg) (canvas_rect cfg)
                  (ctx_translate
                     (ctx_scale
                        (ctx_translate (transform st)
                           (fst (getTransformedPoint (canvas_scaling cfg) (transform st)
                                   (offsetX ev) (offsetY ev)))
                           (snd (getTransformedPoint (canvas_scaling cfg) (transform st)
                                   (offsetX ev) (offsetY ev))))
                        0.98 0.98)
                     (- fst (getTransformedPoint (canvas_scaling cfg) (transform st)
                               (offsetX ev) (offsetY ev)))
                     (- snd (getTransformedPoint (canvas_scaling cfg) (transform st)
                               (offsetX ev) (offsetY ev))))\<rparr>,
           [CallDraw])
        \<and> ta (transform (fst (mousewheel cfg st ev))) = max 1 (ta (transform st) * 0.98)
        \<and> (1 < ta (transform st) \<longrightarrow>
             ta (transform (fst (mousewheel cfg st ev))) < ta (transform st)))
   \<and> (maxZoom cfg = None \<longrightarrow> maxScaleValue cfg = 5)
   \<and> (maxZoom cfg = Some 5 \<longrightarrow> maxScaleValue cfg = 5)"
proof (intro conjI impI)
  show "mousewheel cfg st ev = (st, [])"
    if "deltaY ev < 0 \<and> maxScaleValue cfg < ta (transform st)"
    using that by (simp add: mousewheel_def)
  assume out: "0 \<le> deltaY ev"
  then have nb: "\<not> deltaY ev < 0" by simp
  show w: "mousewheel cfg st ev =
          (st\<lparr>transform :=
                enforceBounds (canvas_scaling cfg) (canvas_rect cfg)
                  (ctx_translate
                     (ctx_scale
                        (ctx_translate (transform st)
                           (fst (getTransformedPoint (canvas_scaling cfg) (transform st)
                                   (offsetX ev) (offsetY ev)))
                           (snd (getTransformedPoint (canvas_scaling cfg) (transform st)
                                   (offsetX ev) (offsetY ev))))
                        0.98 0.98)
                     (- fst (getTransformedPoint (canvas_scaling cfg) (transform st)
                               (offsetX ev) (offsetY ev)))
                     (- snd (getTransformedPoint (canvas_scaling cfg) (transform st)
                               (offsetX ev) (offsetY ev))))\<rparr>,
           [CallDraw])"
    by (simp add: mousewheel_def Let_def nb)
  show a: "ta (transform (fst (mousewheel cfg st ev))) = max 1 (ta (transform st) * 0.98)"
    by (simp add: w enforceBounds_ta zoom_composition_fields)
  show "ta (transform (fst (mousewheel cfg st ev))) < ta (transform st)"
    if "1 < ta (transform st)"
    using that by (simp add: a)
next
  show "maxScaleValue cfg = 5" if "maxZoom cfg = None"
    using that by (simp add: maxScaleValue_def)
  show "maxScaleValue cfg = 5" if "maxZoom cfg = Some 5"
    using that by (simp add: maxScaleValue_def)
qed

theorem max_zoom_soft_cap_witness:
  "deltaY (wheel 350 350 (- 1)) < 0
   \<and> maxScaleValue (demo [] (Some 5) 40)
       < ta (transform ((fst (mount (demo [] (Some 5) 40)))
            \<lparr>transform := \<lparr>ta = 5.01, tb = 0, tc = 0, td = 5.01, te = - 100, tf = - 100\<rparr>\<rparr>))
   \<and> mousewheel (demo [] (Some 5) 40)
        ((fst (mount (demo [] (Some 5) 40)))
            \<lparr>transform := \<lparr>ta = 5.01, tb = 0, tc = 0, td = 5.01, te = - 100, tf = - 100\<rparr>\<rparr>)
        (wheel 350 350 (- 1))
       = ((fst (mount (demo [] (Some 5) 40)))
            \<lparr>transform := \<lparr>ta = 5.01, tb = 0, tc = 0, td = 5.01, te = - 100, tf = - 100\<rparr>\<rparr>, [])
   \<and> 0 \<le> deltaY (wheel 350 350 1)
   \<and> ta (transform (fst (mousewheel (demo [] (Some 5) 40)
        ((fst (mount (demo [] (Some 5) 40)))
            \<lparr>transform := \<lparr>ta = 5.01, tb = 0, tc = 0, td = 5.01, te = - 100, tf = - 100\<rparr>\<rparr>)
        (wheel 350 350 1)))) = 4.9098
   \<and> maxScaleValue (demo [] (Some 5) 40) = 5"
  using max_zoom_soft_cap [of "wheel 350 350 (- 1)" "demo [] (Some 5) 40"
          "(fst (mount (demo [] (Some 5) 40)))
            \<lparr>transform := \<lparr>ta = 5.01, tb = 0, tc = 0, td = 5.01, te = - 100, tf = - 100\<rparr>\<rparr>"]
        max_zoom_soft_cap [of "wheel 350 350 1" "demo [] (Some 5) 40"
          "(fst (mount (demo [] (Some 5) 40)))
            \<lparr>transform := \<lparr>ta = 5.01, tb = 0, tc = 0, td = 5.01, te = - 100, tf = - 100\<rparr>\<rparr>"]
  by (simp add: wheel_def demo_simps maxScaleValue_def enforceBounds_ta zoom_composition_fields)

text \<open>
  Without the condition on the scale the claim fails: with \<open>maxZoom = 0.5\<close>, after 35 wheel
  events that zoom out the scale is 1, which exceeds \<open>maxScaleValue\<close>, and one more zoom-out
  leaves it at 1, since \<open>enforceBounds\<close> raises \<open>0.98\<close> back to 1.
\<close>

theorem max_zoom_soft_cap_counterexample:
  "maxScaleValue (demo [] (Some (1/2)) 40) < ta (transform (zoom_outs (demo [] (Some (1/2)) 40) 35))
   \<and> 0 \<le> deltaY (wheel 350 350 1)
   \<and> ta (transform (zoom_outs (demo [] (Some (1/2)) 40) 35)) = 1
   \<and> ta (transform (fst (mousewheel (demo [] (Some (1/2)) 40)
            (zoom_outs (demo [] (Some (1/2)) 40) 35) (wheel 350 350 1)))) = 1"
proof -
  have w: "0 \<le> deltaY (wheel 350 350 1)" by (simp add: wheel_def)
  show ?thesis
    using w mousewheel_zoom_out_scale [OF w, of "demo [] (Some (1/2)) 40"
              "zoom_outs (demo [] (Some (1/2)) 40) 35"]
    by (simp add: fully_zoomed_out identity_matrix_def maxScaleValue_def demo_simps)
qed

section \<open>Dragging and panning\<close>

lemma mousemove_dragging:
  assumes "draggingObject st = Some obj" and "has_move obj"
  shows "mousemove cfg st ev =
           (st, [CallMove obj (getTransformedPoint (canvas_scaling cfg) (transform st)
                                 (offsetX ev) (offsetY ev)), CallDraw])"
  using assms by (simp add: mousemove_def Let_def)

lemma mousemoves_dragging:
  assumes "draggingObject st = Some obj" and "has_move obj"
  shows "mousemoves cfg st evs = (st, drag_actions cfg (transform st) obj evs)"
proof (induction evs)
  case Nil
  show ?case by (simp add: drag_actions_def)
next
  case (Cons ev evs)
  then show ?case
    by (simp add: mousemove_dragging [OF assms] drag_actions_def)
qed

lemma mousemove_panning:
  assumes "draggingObject st = None" and "dragStart st = Some start"
  shows "mousemove cfg st ev =
           (st\<lparr>transform :=
                enforceBounds (canvas_scaling cfg) (canvas_rect cfg)
                  (ctx_translate (transform st)
                     (fst (getTransformedPoint (canvas_scaling cfg) (transform st)
                             (offsetX ev) (offsetY ev)) - fst start)
                     (snd (getTransformedPoint (canvas_scaling cfg) (transform st)
                             (offsetX ev) (offsetY ev)) - snd start))\<rparr>,
            [CallDraw])"
  using assms by (simp add: mousemove_def Let_def)

lemma mousemoves_panning:
  assumes "draggingObject st = None" and "dragStart st = Some start"
  shows "draggingObject (fst (mousemoves cfg st evs)) = None
       \<and> dragStart (fst (mousemoves cfg st evs)) = Some start
       \<and> snd (mousemoves cfg st evs) = replicate (length evs) CallDraw"
  using assms
proof (induction evs arbitrary: st)
  case Nil
  then show ?case by simp
next
  case (Cons ev evs)
  define st1 where "st1 =
    st\<lparr>transform :=
         enforceBounds (canvas_scaling cfg) (canvas_rect cfg)
           (ctx_translate (transform st)
              (fst (getTransformedPoint (canvas_scaling cfg) (transform st)
                      (offsetX ev) (offsetY ev)) - fst start)
              (snd (getTransformedPoint (canvas_scaling cfg) (transform st)
                      (offsetX ev) (offsetY ev)) - snd start))\<rparr>"
  have m: "mousemove cfg st ev = (st1, [CallDraw])"
    unfolding st1_def by (rule mousemove_panning [OF Cons.prems])
  have d: "draggingObject st1 = None" and s: "dragStart st1 = Some start"
    using Cons.prems by (simp_all add: st1_def)
  from Cons.IH [OF d s] show ?case
    by (simp add: m split_beta)
qed

lemma interaction_of_simps:
  "interaction_of st = Idle \<longleftrightarrow> draggingObject st = None \<and> dragStart st = None"
  "interaction_of st = Panning \<longleftrightarrow> draggingObject st = None \<and> dragStart st \<noteq> None"
  "interaction_of st = DraggingObject \<longleftrightarrow> draggingObject st \<noteq> None"
  by (auto simp: interaction_of_def split: option.splits)

lemma getTransformedPoint_mounted:
  "getTransformedPoint 2 \<lparr>ta = 2, tb = 0, tc = 0, td = 2, te = 0, tf = 0\<rparr> x y = (x, y)"
  by (simp add: getTransformedPoint_def)

lemma pointer_simps:
  "offsetX (pointer x y) = x" "offsetY (pointer x y) = y" "button (pointer x y) = 0"
  by (simp_all add: pointer_def)

lemma getObjectAt_demo_box:
  "getObjectAt (demo [box ''a'' True 100] z c) (50, 50) = Some (box ''a'' True 100)"
  "getObjectAt (demo [box ''a'' True 100] z c) (500, 500) = None"
  by (simp_all add: getObjectAt_def demo_simps touches_at_def box_def)

text \<open>
  Claim C6, as amended. Take a pointer-down of the primary button at the logical point
  \<open>pt\<close>. If the drawable found at \<open>pt\<close> has a \<open>move\<close> function, the state becomes
  \<open>DraggingObject\<close> with that drawable, and every run of pointer-moves after it leaves the
  state, hence the transform, as it is and calls that drawable's \<open>move\<close> with the logical
  point of each event, followed by a redraw. If no object is being dragged when the button
  goes down, and no drawable is found at \<open>pt\<close> or the one found has no \<open>move\<close> function,
  the state becomes \<open>Panning\<close> with \<open>pt\<close> as anchor; it stays so with the same anchor over
  every run of pointer-moves, whose only actions are redraws (no \<open>move\<close> is called), and
  each pointer-move translates the transform by the logical point of the event minus the
  anchor and then applies \<open>enforceBounds\<close> to the result, which may move the translation
  back.
\<close>

theorem drag_vs_pan_dispatch:
  assumes "button ev = 0"
    and "pt = getTransformedPoint (canvas_scaling cfg) (transform st) (offsetX ev) (offsetY ev)"
    and "st1 = fst (mousedown cfg st ev)"
  shows "(\<forall>obj. getObjectAt cfg pt = Some obj \<and> has_move obj \<longrightarrow>
            interaction_of st1 = DraggingObject \<and> draggingObject st1 = Some obj
          \<and> transform st1 = transform st
          \<and> (\<forall>evs. fst (mousemoves cfg st1 evs) = st1
                  \<and> snd (mousemoves cfg st1 evs) = drag_actions cfg (transform st) obj evs))
       \<and> (interaction_of st \<noteq> DraggingObject
            \<and> (getObjectAt cfg pt = None
                 \<or> (\<exists>obj. getObjectAt cfg pt = Some obj \<and> \<not> has_move obj)) \<longrightarrow>
            interaction_of st1 = Panning \<and> dragStart st1 = Some pt
          \<and> transform st1 = transform st
          \<and> (\<forall>evs. interaction_of (fst (mousemoves cfg st1 evs)) = Panning
                  \<and> dragStart (fst (mousemoves cfg st1 evs)) = Some pt
                  \<and> snd (mousemoves cfg st1 evs) = replicate (length evs) CallDraw
                  \<and> (\<forall>ev'. mousemove cfg (fst (mousemoves cfg st1 evs)) ev' =
                        ((fst (mousemoves cfg st1 evs))
                           \<lparr>transform :=
                              enforceBounds (canvas_scaling cfg) (canvas_rect cfg)
                                (ctx_translate (transform (fst (mousemoves cfg st1 evs)))
                                   (fst (getTransformedPoint (canvas_scaling cfg)
                                           (transform (fst (mousemoves cfg st1 evs)))
                                           (offsetX ev') (offsetY ev')) - fst pt)
                                   (snd (getTransformedPoint (canvas_scaling cfg)
                                           (transform (fst (mousemoves cfg st1 evs)))
                                           (offsetX ev') (offsetY ev')) - snd pt))\<rparr>,
                         [CallDraw]))))"
proof (intro conjI allI impI)
  fix obj
  assume hit: "getObjectAt cfg pt = Some obj \<and> has_move obj"
  then have st1: "st1 = st\<lparr>draggingObject := Some obj, cursor := ''grabbing''\<rparr>"
    using assms by (simp add: mousedown_def Let_def)
  show "interaction_of st1 = DraggingObject" by (simp add: st1 interaction_of_simps)
  show d: "draggingObject st1 = Some obj" by (simp add: st1)
  show t: "transform st1 = transform st" by (simp add: st1)
  fix evs
  from hit have m: "has_move obj" by simp
  show "fst (mousemoves cfg st1 evs) = st1"
    by (simp add: mousemoves_dragging [OF d m])
  show "snd (mousemoves cfg st1 evs) = drag_actions cfg (transform st) obj evs"
    by (simp add: mousemoves_dragging [OF d m] t)
next
  assume miss: "interaction_of st \<noteq> DraggingObject
     \<and> (getObjectAt cfg pt = None \<or> (\<exists>obj. getObjectAt cfg pt = Some obj \<and> \<not> has_move obj))"
  then have st1: "st1 = st\<lparr>dragStart := Some pt, cursor := ''grabbing''\<rparr>"
    using assms by (auto simp: mousedown_def Let_def)
  have d: "draggingObject st1 = None"
    using miss by (simp add: st1 interaction_of_simps)
  show s: "dragStart st1 = Some pt" by (simp add: st1)
  show "interaction_of st1 = Panning" using d s by (simp add: interaction_of_simps)
  show "transform st1 = transform st" by (simp add: st1)
  fix evs
  note inv = mousemoves_panning [OF d s, of cfg evs]
  show "interaction_of (fst (mousemoves cfg st1 evs)) = Panning"
    using inv by (simp add: interaction_of_simps)
  show "dragStart (fst (mousemoves cfg st1 evs)) = Some pt" using inv by simp
  show "snd (mousemoves cfg st1 evs) = replicate (length evs) CallDraw" using inv by simp
  fix ev'
  from inv have d': "draggingObject (fst (mousemoves cfg st1 evs)) = None"
    and s': "dragStart (fst (mousemoves cfg st1 evs)) = Some pt" by simp_all
  show "mousemove cfg (fst (mousemoves cfg st1 evs)) ev' =
                        ((fst (mousemoves cfg st1 evs))
                           \<lparr>transform :=
                              enforceBounds (canvas_scaling cfg) (canvas_rect cfg)
                                (ctx_translate (transform (fst (mousemoves cfg st1 evs)))
                                   (fst (getTransformedPoint (canvas_scaling cfg)
                                           (transform (fst (mousemoves cfg st1 evs)))
                                           (offsetX ev') (offsetY ev')) - fst pt)
                                   (snd (getTransformedPoint (canvas_scaling cfg)
                                           (transform (fst (mousemoves cfg st1 evs)))
                                           (offsetX ev') (offsetY ev')) - snd pt))\<rparr>,
                         [CallDraw])"
    by (rule mousemove_panning [OF d' s'])
qed

theorem drag_vs_pan_dispatch_witness:
  "interaction_of (fst (mount (demo [box ''a'' True 100] None 40))) = Idle
   \<and> button (pointer 50 50) = 0 \<and> button (pointer 500 500) = 0
   \<and> getObjectAt (demo [box ''a'' True 100] None 40) (50, 50) = Some (box ''a'' True 100)
   \<and> has_move (box ''a'' True 100)
   \<and> interaction_of (fst (mousedown (demo [box ''a'' True 100] None 40)
         (fst (mount (demo [box ''a'' True 100] None 40))) (pointer 50 50))) = DraggingObject
   \<and> mousemoves (demo [box ''a'' True 100] None 40)
       (fst (mousedown (demo [box ''a'' True 100] None 40)
         (fst (mount (demo [box ''a'' True 100] None 40))) (pointer 50 50)))
       [pointer 60 60, pointer 70 80]
     = (fst (mousedown (demo [box ''a'' True 100] None 40)
         (fst (mount (demo [box ''a'' True 100] None 40))) (pointer 50 50)),
        [CallMove (box ''a'' True 100) (60, 60), CallDraw,
         CallMove (box ''a'' True 100) (70, 80), CallDraw])
   \<and> getObjectAt (demo [box ''a'' True 100] None 40) (500, 500) = None
   \<and> interaction_of (fst (mousedown (demo [box ''a'' True 100] None 40)
         (fst (mount (demo [box ''a'' True 100] None 40))) (pointer 500 500))) = Panning
   \<and> dragStart (fst (mousedown (demo [box ''a'' True 100] None 40)
         (fst (mount (demo [box ''a'' True 100] None 40))) (pointer 500 500))) = Some (500, 500)
   \<and> transform (fst (mousemove (demo [box ''a'' True 100] None 40)
         (fst (mousedown (demo [box ''a'' True 100] None 40)
            (fst (mount (demo [box ''a'' True 100] None 40))) (pointer 500 500)))
         (pointer 490 480)))
       = \<lparr>ta = 2, tb = 0, tc = 0, td = 2, te = - 20, tf = - 40\<rparr>
   \<and> snd (mousemove (demo [box ''a'' True 100] None 40)
         (fst (mousedown (demo [box ''a'' True 100] None 40)
            (fst (mount (demo [box ''a'' True 100] None 40))) (pointer 500 500)))
         (pointer 490 480)) = [CallDraw]"
proof -
  let ?a = "box ''a'' True 100"
  let ?cfg = "demo [?a] None 40"
  let ?st = "fst (mount ?cfg)"
  let ?drag = "fst (mousedown ?cfg ?st (pointer 50 50))"
  let ?pan = "fst (mousedown ?cfg ?st (pointer 500 500))"
  have idle: "interaction_of ?st = Idle"
    by (simp add: mount_demo interaction_of_def)
  have b: "button (pointer 50 50) = 0" "button (pointer 500 500) = 0"
    by (simp_all add: pointer_def)
  have p1: "(50, 50) = getTransformedPoint (canvas_scaling ?cfg) (transform ?st)
                         (offsetX (pointer 50 50)) (offsetY (pointer 50 50))"
    and p2: "(500, 500) = getTransformedPoint (canvas_scaling ?cfg) (transform ?st)
                         (offsetX (pointer 500 500)) (offsetY (pointer 500 500))"
    by (simp_all add: mount_demo demo_simps getTransformedPoint_mounted pointer_def)
  have m: "has_move ?a" by (simp add: box_def)
  have nd: "interaction_of ?st \<noteq> DraggingObject" using idle by simp
  note drag = drag_vs_pan_dispatch [OF b(1) p1 refl, THEN conjunct1, rule_format,
      OF conjI [OF getObjectAt_demo_box(1) m]]
  note pan = drag_vs_pan_dispatch [OF b(2) p2 refl, THEN conjunct2, rule_format,
      OF conjI [OF nd disjI1 [OF getObjectAt_demo_box(2)]]]
  have d1: "interaction_of ?drag = DraggingObject" using drag by simp
  have d2: "mousemoves ?cfg ?drag [pointer 60 60, pointer 70 80]
            = (?drag, [CallMove ?a (60, 60), CallDraw, CallMove ?a (70, 80), CallDraw])"
    using drag [THEN conjunct2, THEN conjunct2, THEN conjunct2, rule_format,
                of "[pointer 60 60, pointer 70 80]"]
    by (simp add: prod_eq_iff drag_actions_def mount_demo demo_simps
          getTransformedPoint_mounted pointer_def)
  have p3: "interaction_of ?pan = Panning" and p4: "dragStart ?pan = Some (500, 500)"
    and p5: "transform ?pan = transform ?st"
    using pan by simp_all
  have p6: "mousemove ?cfg ?pan (pointer 490 480) =
              (?pan\<lparr>transform :=
                  enforceBounds (canvas_scaling ?cfg) (canvas_rect ?cfg)
                    (ctx_translate (transform ?pan)
                       (fst (getTransformedPoint (canvas_scaling ?cfg) (transform ?pan)
                               (offsetX (pointer 490 480)) (offsetY (pointer 490 480)))
                        - fst (500, 500 :: real))
                       (snd (getTransformedPoint (canvas_scaling ?cfg) (transform ?pan)
                               (offsetX (pointer 490 480)) (offsetY (pointer 490 480)))
                        - snd (500 :: real, 500)))\<rparr>,
               [CallDraw])"
    using pan [THEN conjunct2, THEN conjunct2, THEN conjunct2, rule_format, of "[]",
               THEN conjunct2, THEN conjunct2, THEN conjunct2, rule_format, of "pointer 490 480"]
    by simp
  have tp: "transform ?pan = \<lparr>ta = 2, tb = 0, tc = 0, td = 2, te = 0, tf = 0\<rparr>"
    using p5 by (simp add: mount_demo)
  have p7: "transform (fst (mousemove ?cfg ?pan (pointer 490 480)))
              = \<lparr>ta = 2, tb = 0, tc = 0, td = 2, te = - 20, tf = - 40\<rparr>"
    by (subst p6)
       (simp add: tp demo_simps getTransformedPoint_mounted pointer_simps
          ctx_translate_def enforceBounds_def)
  have p8: "snd (mousemove ?cfg ?pan (pointer 490 480)) = [CallDraw]"
    by (subst p6) simp
  from idle b getObjectAt_demo_box m d1 d2 p3 p4 p7 p8 show ?thesis by simp
qed

text \<open>
  Panning does not always change the transform by the delta. On the freshly mounted
  canvas of 700 by 700 a pointer-down on empty space at \<open>(500, 500)\<close> starts a pan. The
  pointer-move to \<open>(510, 520)\<close> translates the transform by the delta \<open>(10, 20)\<close>, which
  makes both translations positive, and \<open>enforceBounds\<close> sets them back to zero: the
  transform after the move is the transform before it, not the translated one.
\<close>

theorem drag_vs_pan_dispatch_counterexample:
  "interaction_of (fst (mount (demo [box ''a'' True 100] None 40))) = Idle
   \<and> button (pointer 500 500) = 0
   \<and> getObjectAt (demo [box ''a'' True 100] None 40)
       (getTransformedPoint (canvas_scaling (demo [box ''a'' True 100] None 40))
          (transform (fst (mount (demo [box ''a'' True 100] None 40))))
          (offsetX (pointer 500 500)) (offsetY (pointer 500 500))) = None
   \<and> interaction_of (fst (mousedown (demo [box ''a'' True 100] None 40)
         (fst (mount (demo [box ''a'' True 100] None 40))) (pointer 500 500))) = Panning
   \<and> dragStart (fst (mousedown (demo [box ''a'' True 100] None 40)
         (fst (mount (demo [box ''a'' True 100] None 40))) (pointer 500 500))) = Some (500, 500)
   \<and> transform (fst (mousedown (demo [box ''a'' True 100] None 40)
         (fst (mount (demo [box ''a'' True 100] None 40))) (pointer 500 500)))
       = \<lparr>ta = 2, tb = 0, tc = 0, td = 2, te = 0, tf = 0\<rparr>
   \<and> getTransformedPoint (canvas_scaling (demo [box ''a'' True 100] None 40))
         \<lparr>ta = 2, tb = 0, tc = 0, td = 2, te = 0, tf = 0\<rparr>
         (offsetX (pointer 510 520)) (offsetY (pointer 510 520)) = (510, 520)
   \<and> ctx_translate \<lparr>ta = 2, tb = 0, tc = 0, td = 2, te = 0, tf = 0\<rparr> (510 - 500) (520 - 500)
       = \<lparr>ta = 2, tb = 0, tc = 0, td = 2, te = 20, tf = 40\<rparr>
   \<and> mousemove (demo [box ''a'' True 100] None 40)
         (fst (mousedown (demo [box ''a'' True 100] None 40)
            (fst (mount (demo [box ''a'' True 100] None 40))) (pointer 500 500)))
         (pointer 510 520)
       = (fst (mousedown (demo [box ''a'' True 100] None 40)
            (fst (mount (demo [box ''a'' True 100] None 40))) (pointer 500 500)),
          [CallDraw])
   \<and> transform (fst (mousemove (demo [box ''a'' True 100] None 40)
         (fst (mousedown (demo [box ''a'' True 100] None 40)
            (fst (mount (demo [box ''a'' True 100] None 40))) (pointer 500 500)))
         (pointer 510 520)))
       \<noteq> ctx_translate \<lparr>ta = 2, tb = 0, tc = 0, td = 2, te = 0, tf = 0\<rparr> (510 - 500) (520 - 500)"
proof -
  let ?a = "box ''a'' True 100"
  let ?cfg = "demo [?a] None 40"
  let ?st = "fst (mount ?cfg)"
  let ?T = "\<lparr>ta = 2, tb = 0, tc = 0, td = 2, te = 0, tf = 0\<rparr> :: dom_matrix"
  have idle: "interaction_of ?st = Idle"
    by (simp add: mount_demo interaction_of_def)
  have b: "button (pointer 500 500) = 0" by (simp add: pointer_def)
  have miss: "getObjectAt ?cfg (getTransformedPoint (canvas_scaling ?cfg) (transform ?st)
                (offsetX (pointer 500 500)) (offsetY (pointer 500 500))) = None"
    by (simp add: mount_demo demo_simps getTransformedPoint_mounted pointer_simps
          getObjectAt_demo_box)
  have s1: "fst (mousedown ?cfg ?st (pointer 500 500))
              = ?st\<lparr>dragStart := Some (500, 500), cursor := ''grabbing''\<rparr>"
    by (simp add: mousedown_def Let_def mount_demo demo_simps getTransformedPoint_mounted
          pointer_simps getObjectAt_demo_box)
  have pan: "interaction_of (?st\<lparr>dragStart := Some (500, 500), cursor := ''grabbing''\<rparr>)
               = Panning"
    by (simp add: interaction_of_simps mount_demo)
  have tr: "transform (?st\<lparr>dragStart := Some (500, 500), cursor := ''grabbing''\<rparr>) = ?T"
    by (simp add: mount_demo)
  have pt: "getTransformedPoint (canvas_scaling ?cfg) ?T
              (offsetX (pointer 510 520)) (offsetY (pointer 510 520)) = (510, 520)"
    by (simp add: demo_simps getTransformedPoint_mounted pointer_simps)
  have tl: "ctx_translate ?T (510 - 500) (520 - 500)
              = \<lparr>ta = 2, tb = 0, tc = 0, td = 2, te = 20, tf = 40\<rparr>"
    by (simp add: ctx_translate_def)
  have eb: "enforceBounds 2 \<lparr>width = 700, height = 700\<rparr>
              \<lparr>ta = 2, tb = 0, tc = 0, td = 2, te = 20, tf = 40\<rparr> = ?T"
    by (simp add: enforceBounds_def)
  have mv: "mousemove ?cfg (?st\<lparr>dragStart := Some (500, 500), cursor := ''grabbing''\<rparr>)
              (pointer 510 520)
            = (?st\<lparr>dragStart := Some (500, 500), cursor := ''grabbing''\<rparr>, [CallDraw])"
    by (subst mousemove_panning [where start = "(500, 500)"])
       (simp_all add: mount_demo demo_simps getTransformedPoint_mounted pointer_simps
          ctx_translate_def eb)
  show ?thesis
    unfolding s1 mv
    using idle b miss pan tr pt tl by simp
qed

text \<open>
  The pan half of the dispatch is stated for a pointer-down that arrives while no object
  is being dragged. \<open>mousedown\<close> sets one of \<open>draggingObject\<close> and \<open>dragStart\<close> and leaves the
  other as it is, and \<open>mousemove\<close> looks at \<open>draggingObject\<close> first: after a pointer-down
  on a movable drawable and no pointer-up, a pointer-down on empty space sets \<open>dragStart\<close>
  but the drawable is still being dragged, and the next pointer-move calls its \<open>move\<close> and
  leaves the transform alone, where the comment in the handler reads \<open>Otherwise, we want
  to pan the canvas\<close>.
\<close>

lemma mousedown_keeps_draggingObject:
  "draggingObject (fst (mousedown (demo [box ''a'' True 100] None 40)
       (fst (mount (demo [box ''a'' True 100] None 40))) (pointer 50 50)))
     = Some (box ''a'' True 100)
   \<and> button (pointer 500 500) = 0
   \<and> getObjectAt (demo [box ''a'' True 100] None 40)
       (getTransformedPoint (canvas_scaling (demo [box ''a'' True 100] None 40))
          (transform (fst (mousedown (demo [box ''a'' True 100] None 40)
             (fst (mount (demo [box ''a'' True 100] None 40))) (pointer 50 50))))
          (offsetX (pointer 500 500)) (offsetY (pointer 500 500))) = None
   \<and> interaction_of (fst (mousedown (demo [box ''a'' True 100] None 40)
       (fst (mousedown (demo [box ''a'' True 100] None 40)
          (fst (mount (demo [box ''a'' True 100] None 40))) (pointer 50 50)))
       (pointer 500 500))) = DraggingObject
   \<and> mousemove (demo [box ''a'' True 100] None 40)
       (fst (mousedown (demo [box ''a'' True 100] None 40)
          (fst (mousedown (demo [box ''a'' True 100] None 40)
             (fst (mount (demo [box ''a'' True 100] None 40))) (pointer 50 50)))
          (pointer 500 500)))
       (pointer 490 480)
     = (fst (mousedown (demo [box ''a'' True 100] None 40)
          (fst (mousedown (demo [box ''a'' True 100] None 40)
             (fst (mount (demo [box ''a'' True 100] None 40))) (pointer 50 50)))
          (pointer 500 500)),
        [CallMove (box ''a'' True 100) (490, 480), CallDraw])"
proof -
  let ?a = "box ''a'' True 100"
  let ?cfg = "demo [?a] None 40"
  let ?st = "fst (mount ?cfg)"
  have m: "has_move ?a" by (simp add: box_def)
  have s1: "fst (mousedown ?cfg ?st (pointer 50 50))
              = ?st\<lparr>draggingObject := Some ?a, cursor := ''grabbing''\<rparr>"
    by (simp add: mousedown_def Let_def mount_demo demo_simps getTransformedPoint_mounted
          pointer_def getObjectAt_demo_box m)
  have s2: "fst (mousedown ?cfg (?st\<lparr>draggingObject := Some ?a, cursor := ''grabbing''\<rparr>)
                   (pointer 500 500))
              = ?st\<lparr>draggingObject := Some ?a, dragStart := Some (500, 500),
                     cursor := ''grabbing''\<rparr>"
    by (simp add: mousedown_def Let_def mount_demo demo_simps getTransformedPoint_mounted
          pointer_def getObjectAt_demo_box)
  show ?thesis
    by (simp add: s1 s2 mousemove_dragging [OF _ m] interaction_of_simps)
       (simp add: mount_demo demo_simps getTransformedPoint_mounted pointer_def
          getObjectAt_demo_box)
qed

end
